theory Spec2Isabelle
  imports Complex_Main "HOL-Library.Option_ord" "HOL-Library.Word"
begin

section \<open>Batched beam search of eight\_mile.tf.layers\<close>

text \<open>
  The development embeds \<^verbatim>\<open>masked_fill\<close>, \<^verbatim>\<open>gather_k\<close>, \<^verbatim>\<open>update_lengths\<close>,
  \<^verbatim>\<open>no_length_penalty\<close> and \<^verbatim>\<open>BeamSearchBase.__call__\<close> of
  \<^verbatim>\<open>src/eight_mile/tf/layers.py\<close>.

  A tensor is a nested list in row-major order: \<open>[B, K]\<close> is a list of \<open>B\<close> rows of
  \<open>K\<close> entries, \<open>[B, K, V]\<close> a list of \<open>B\<close> lists of \<open>K\<close> rows of \<open>V\<close> entries.
  The search is stated over real log-probabilities and scores: the finite values of
  \<^verbatim>\<open>float32\<close>, without rounding. The type \<open>f32\<close> at the end of the definitions adds
  the infinities and NaN with their arithmetic; \<open>masked_fill\<close> is defined for both,
  and on finite values the two agree. Lengths are integers: the source keeps them in an
  \<^verbatim>\<open>int32\<close> tensor, so a statement that stores \<open>mxlen\<close> as a length assumes it in the
  range of \<^verbatim>\<open>int32\<close>. A quotient by a zero penalty is 0 in HOL and an infinity or NaN
  in \<^verbatim>\<open>float32\<close>: the statements about the final scores are made where the penalty is
  not zero. Token ids and indices are natural numbers. Every place where the source raises on an input the search
  can be given is a branch that returns an \<open>error\<close>.
\<close>

subsection \<open>Errors\<close>

datatype error =
    NegativeDimension    \<comment> \<open>\<^verbatim>\<open>tf.fill\<close> with a negative dimension\<close>
  | ShapeMismatch        \<comment> \<open>\<^verbatim>\<open>tf.reshape\<close> to a shape of another size\<close>
  | SliceOutOfBounds     \<comment> \<open>an integer index past the end of an axis\<close>
  | TopKOutOfRange       \<comment> \<open>\<^verbatim>\<open>tf.math.top_k\<close> with fewer than \<open>k\<close> columns\<close>

subsection \<open>Tensors as nested lists\<close>

definition tensor2 :: "nat \<Rightarrow> nat \<Rightarrow> (nat \<Rightarrow> nat \<Rightarrow> 'a) \<Rightarrow> 'a list list" where
  "tensor2 B K f = map (\<lambda>b. map (\<lambda>k. f b k) [0..<K]) [0..<B]"

definition tensor3 :: "nat \<Rightarrow> nat \<Rightarrow> nat \<Rightarrow> (nat \<Rightarrow> nat \<Rightarrow> nat \<Rightarrow> 'a) \<Rightarrow> 'a list list list" where
  "tensor3 B K V f = map (\<lambda>b. map (\<lambda>k. map (\<lambda>v. f b k v) [0..<V]) [0..<K]) [0..<B]"

text \<open>
  \<^verbatim>\<open>tf.reshape(probs, (bsz, self.K, V))\<close> of the oracle's \<open>[B * K, V]\<close> output. The
  reshape raises when the sizes differ.
\<close>

definition reshape_probs :: "nat \<Rightarrow> nat \<Rightarrow> nat \<Rightarrow> 'a list list \<Rightarrow> error + 'a list list list" where
  "reshape_probs bsz K V rows =
     (if length rows = bsz * K \<and> list_all (\<lambda>r. length r = V) rows
      then Inr (tensor3 bsz K V (\<lambda>b k v. rows ! (b * K + k) ! v))
      else Inl ShapeMismatch)"

subsection \<open>Special token ids\<close>

text \<open>
  Modelled from the spec: \<^verbatim>\<open>Offsets\<close> of \<^verbatim>\<open>eight_mile.utils\<close> is not among the
  sources. The spec's scenarios number the tokens PAD = 0, START = 1, END = 2.
\<close>

definition GO :: nat where
  "GO = 1"

definition EOS :: nat where
  "EOS = 2"

subsection \<open>masked\_fill, gather\_k, update\_lengths, no\_length\_penalty\<close>

text \<open>
  \<^verbatim>\<open>masked_fill(t, mask, value)\<close> is arithmetic, not a select:
  \<^verbatim>\<open>t * (1 - cast(mask)) + value * cast(mask)\<close>. This is one entry of it; the callers
  below write the broadcasting out by index. It is defined for every type with the four
  operations: in a ring (the reals, the integers) a true mask gives \<open>value\<close>, in
  \<open>f32\<close> it gives NaN when \<open>t\<close> is not finite.
\<close>

definition masked_fill :: "'a::{zero_neq_one, plus, minus, times} \<Rightarrow> bool \<Rightarrow> 'a \<Rightarrow> 'a" where
  "masked_fill t m v = t * (1 - of_bool m) + v * of_bool m"

text \<open>
  \<^verbatim>\<open>gather_k(a, b, best_idx, k)\<close>: entry \<open>(r, j)\<close> of the result is
  \<open>b[r, best_idx[r, j]]\<close>, for every row \<open>r\<close> of \<open>a\<close> and every \<open>j < k\<close>.
\<close>

definition gather_k :: "'a list list \<Rightarrow> 'b list list \<Rightarrow> nat list list \<Rightarrow> nat \<Rightarrow> 'b list list" where
  "gather_k a b best_idx k = tensor2 (length a) k (\<lambda>r j. b ! r ! (best_idx ! r ! j))"

definition update_lengths :: "int list list \<Rightarrow> bool list list \<Rightarrow> int \<Rightarrow> int list list" where
  "update_lengths lengths eoses idx =
     map2 (\<lambda>ls es. map2 (\<lambda>l e. masked_fill l (l = 0 \<and> e) idx) ls es) lengths eoses"

text \<open>
  A length penalty maps the \<open>[B, K]\<close> lengths to a \<open>[B, K, 1]\<close> tensor of factors; the
  trailing axis of size one is left implicit.
\<close>

definition no_length_penalty :: "int list list \<Rightarrow> real list list" where
  "no_length_penalty lengths = map (map (\<lambda>_. 1)) lengths"

subsection \<open>Top-k selection\<close>

text \<open>
  \<^verbatim>\<open>tf.math.top_k\<close> is TensorFlow's. Its documented contract: the \<open>k\<close> largest
  entries of each row in descending order, the lower index first among equal entries,
  and an error when the row has fewer than \<open>k\<close> columns. \<open>ranking\<close> sorts the
  indices of a row that way by stable insertion.
\<close>

fun insert_ranked :: "'a::linorder list \<Rightarrow> nat \<Rightarrow> nat list \<Rightarrow> nat list" where
  "insert_ranked xs i [] = [i]"
| "insert_ranked xs i (j # js) =
     (if xs ! j < xs ! i then i # j # js else j # insert_ranked xs i js)"

definition ranking :: "'a::linorder list \<Rightarrow> nat list" where
  "ranking xs = foldl (\<lambda>acc i. insert_ranked xs i acc) [] [0..<length xs]"

definition top_k :: "'a::linorder list list \<Rightarrow> nat \<Rightarrow> nat \<Rightarrow> error + ('a list list \<times> nat list list)" where
  "top_k flat_scores width k =
     (if width < k then Inl TopKOutOfRange
      else Inr (map (\<lambda>row. map ((!) row) (take k (ranking row))) flat_scores,
                map (\<lambda>row. take k (ranking row)) flat_scores))"

subsection \<open>The score combiner\<close>

text \<open>
  Lines 2833 to 2849 of \<^verbatim>\<open>__call__\<close>: \<^verbatim>\<open>done_mask\<close> is \<open>lengths \<noteq> 0\<close> broadcast
  over the vocabulary axis, \<^verbatim>\<open>eos_mask\<close> selects column \<open>EOS\<close>, and the two
  \<^verbatim>\<open>masked_fill\<close> calls run one after the other.
\<close>

definition mask_finished :: "nat \<Rightarrow> nat \<Rightarrow> nat \<Rightarrow> int list list \<Rightarrow> real list list list \<Rightarrow> real list list list" where
  "mask_finished bsz K V lengths probs =
     tensor3 bsz K V (\<lambda>b k v.
       masked_fill (masked_fill (probs ! b ! k ! v) (lengths ! b ! k \<noteq> 0) (- 100000000))
                   (lengths ! b ! k \<noteq> 0 \<and> v = EOS) 0)"

text \<open>Line 2850: \<^verbatim>\<open>probs = tf.expand_dims(log_probs, -1) + probs\<close>.\<close>

definition add_log_probs :: "nat \<Rightarrow> nat \<Rightarrow> nat \<Rightarrow> real list list \<Rightarrow> real list list list \<Rightarrow> real list list list" where
  "add_log_probs bsz K V log_probs probs =
     tensor3 bsz K V (\<lambda>b k v. log_probs ! b ! k + probs ! b ! k ! v)"

text \<open>Line 2852: \<^verbatim>\<open>valid_lengths = masked_fill(lengths, lengths == 0, i + 1)\<close>.\<close>

definition valid_lengths :: "nat \<Rightarrow> nat \<Rightarrow> int list list \<Rightarrow> nat \<Rightarrow> int list list" where
  "valid_lengths bsz K lengths i =
     tensor2 bsz K (\<lambda>b k. masked_fill (lengths ! b ! k) (lengths ! b ! k = 0) (int i + 1))"

text \<open>Line 2853: the candidates divided by the penalty of their beam.\<close>

definition penalized :: "nat \<Rightarrow> nat \<Rightarrow> nat \<Rightarrow> real list list list \<Rightarrow> real list list \<Rightarrow> real list list list" where
  "penalized bsz K V probs penalty =
     tensor3 bsz K V (\<lambda>b k v. probs ! b ! k ! v / penalty ! b ! k)"

text \<open>
  Line 2860: \<^verbatim>\<open>path_scores = probs[:, 0, :]\<close>. The integer index is out of bounds when
  the beam axis is empty.
\<close>

definition first_beam_scores :: "nat \<Rightarrow> 'a list list list \<Rightarrow> error + 'a list list" where
  "first_beam_scores K probs =
     (if K = 0 then Inl SliceOutOfBounds else Inr (map (\<lambda>row. row ! 0) probs))"

text \<open>
  Lines 2831 to 2862. The result is the source's \<^verbatim>\<open>probs\<close> as it stands before the
  selection (unpenalized candidates after the first step, the oracle's output at the
  first), \<^verbatim>\<open>flat_scores\<close> and the number of columns of \<^verbatim>\<open>flat_scores\<close>.
\<close>

definition score_candidates ::
  "(int list list \<Rightarrow> real list list) \<Rightarrow> nat \<Rightarrow> nat \<Rightarrow> nat \<Rightarrow> nat \<Rightarrow> real list list \<Rightarrow>
   int list list \<Rightarrow> real list list list \<Rightarrow> error + (real list list list \<times> real list list \<times> nat)" where
  "score_candidates penalty_fn bsz K V i log_probs lengths probs =
     (if i > 0 then
        let probs' = add_log_probs bsz K V log_probs (mask_finished bsz K V lengths probs);
            path_scores = penalized bsz K V probs' (penalty_fn (valid_lengths bsz K lengths i))
        in Inr (probs', map concat path_scores, K * V)
      else
        case first_beam_scores K probs of
          Inl e \<Rightarrow> Inl e
        | Inr path_scores \<Rightarrow> Inr (probs, path_scores, V))"

subsection \<open>Selection\<close>

record 'a selection =
  best_scores :: "'a list list"
  best_idx :: "nat list list"
  sel_log_probs :: "'a list list"
  best_beams :: "nat list list"
  tokens :: "nat list list"

text \<open>
  Lines 2863 to 2870: the top \<open>K\<close> of every row of \<^verbatim>\<open>flat_scores\<close>, the log-probabilities
  gathered from the flattened \<^verbatim>\<open>probs\<close> at the same indices, and the indices split
  into beam (\<^verbatim>\<open>best_idx // V\<close>) and token (\<^verbatim>\<open>best_idx % V\<close>).
\<close>

definition select :: "'a::linorder list list \<Rightarrow> nat \<Rightarrow> 'a list list list \<Rightarrow> nat \<Rightarrow> nat \<Rightarrow> error + 'a selection" where
  "select flat_scores width probs K V =
     (case top_k flat_scores width K of
        Inl e \<Rightarrow> Inl e
      | Inr (scores, idx) \<Rightarrow>
          Inr \<lparr>best_scores = scores,
               best_idx = idx,
               sel_log_probs = gather_k flat_scores (map concat probs) idx K,
               best_beams = map (map (\<lambda>x. x div V)) idx,
               tokens = map (map (\<lambda>x. x mod V)) idx\<rparr>)"

text \<open>
  The selection of the first iteration, lines 2860 to 2870: the scores are those of beam 0
  and the log-probabilities are gathered from the oracle's output as it is. Nothing in it
  is arithmetic, so it is stated for any linearly ordered score type.
\<close>

definition first_selection :: "nat \<Rightarrow> nat \<Rightarrow> 'a::linorder list list list \<Rightarrow> error + 'a selection" where
  "first_selection K V probs =
     (case first_beam_scores K probs of
        Inl e \<Rightarrow> Inl e
      | Inr path_scores \<Rightarrow> select path_scores V probs K V)"

subsection \<open>The beam state and one iteration of the loop\<close>

record 'e beams =
  paths :: "nat list list list"
  log_probs :: "real list list"
  lengths :: "int list list"
  extra :: 'e

text \<open>
  The class: \<^verbatim>\<open>self.K\<close> (the constructor's \<^verbatim>\<open>beam\<close>), \<^verbatim>\<open>self.length_penalty\<close> and
  the three methods a subclass supplies. \<^verbatim>\<open>step\<close> returns the vocabulary size
  together with the \<open>[B * K, V]\<close> rows, so that \<open>V\<close> is known when there is no row.
\<close>

record ('h, 'e) BeamSearchBase =
  beam :: int
  length_penalty :: "int list list \<Rightarrow> real list list"
  init :: "'h list \<Rightarrow> 'e"
  step :: "nat list list list \<Rightarrow> 'e \<Rightarrow> (nat \<times> real list list) \<times> 'e"
  update :: "nat list \<Rightarrow> 'e \<Rightarrow> 'e"

text \<open>\<^verbatim>\<open>__init__\<close>: a missing penalty is \<^verbatim>\<open>no_length_penalty\<close>; \<^verbatim>\<open>beam\<close> is stored as given.\<close>

definition BeamSearchBase_init ::
  "int \<Rightarrow> (int list list \<Rightarrow> real list list) option \<Rightarrow> ('h list \<Rightarrow> 'e) \<Rightarrow>
   (nat list list list \<Rightarrow> 'e \<Rightarrow> (nat \<times> real list list) \<times> 'e) \<Rightarrow> (nat list \<Rightarrow> 'e \<Rightarrow> 'e) \<Rightarrow>
   ('h, 'e) BeamSearchBase" where
  "BeamSearchBase_init K penalty init_fn step_fn update_fn =
     \<lparr>beam = K,
      length_penalty = (case penalty of None \<Rightarrow> no_length_penalty | Some p \<Rightarrow> p),
      init = init_fn, step = step_fn, update = update_fn\<rparr>"

text \<open>Lines 2875 to 2877: the beams a row selected, made global by the row's offset.\<close>

definition flat_beams :: "nat \<Rightarrow> nat \<Rightarrow> 'a selection \<Rightarrow> nat list" where
  "flat_beams bsz K sel = concat (tensor2 bsz K (\<lambda>b j. best_beams sel ! b ! j + b * K))"

text \<open>Lines 2879 to 2883: the paths of the selected beams, each with its token appended.\<close>

definition gather_paths :: "nat \<Rightarrow> nat \<Rightarrow> nat list list list \<Rightarrow> 'a selection \<Rightarrow> nat list list list" where
  "gather_paths bsz K ps sel =
     (let flat_paths = concat ps;
          new_paths = tensor2 bsz K (\<lambda>b j. flat_paths ! (flat_beams bsz K sel ! (b * K + j)))
      in tensor2 bsz K (\<lambda>b j. new_paths ! b ! j @ [tokens sel ! b ! j]))"

text \<open>Lines 2887 to 2889: the lengths of the selected beams.\<close>

definition gather_lengths :: "nat \<Rightarrow> nat \<Rightarrow> int list list \<Rightarrow> 'a selection \<Rightarrow> int list list" where
  "gather_lengths bsz K ls sel =
     (let flat_lengths = concat ls
      in tensor2 bsz K (\<lambda>b j. flat_lengths ! (flat_beams bsz K sel ! (b * K + j))))"

text \<open>Lines 2875 to 2896: the state after the selection of iteration \<open>i\<close>.\<close>

definition reorder :: "(nat list \<Rightarrow> 'e \<Rightarrow> 'e) \<Rightarrow> nat \<Rightarrow> nat \<Rightarrow> nat \<Rightarrow> 'e beams \<Rightarrow> 'e \<Rightarrow> real selection \<Rightarrow> 'e beams" where
  "reorder update_fn bsz K i s extra1 sel =
     (let paths' = gather_paths bsz K (paths s) sel;
          lengths' = gather_lengths bsz K (lengths s) sel;
          extra2 = update_fn (flat_beams bsz K sel) extra1;
          eoses = tensor2 bsz K (\<lambda>b j. last (paths' ! b ! j) = EOS)
      in \<lparr>paths = paths',
          log_probs = sel_log_probs sel,
          lengths = update_lengths lengths' eoses (int i + 1),
          extra = extra2\<rparr>)"

text \<open>Lines 2828 to 2896: the body of the loop, up to the test that leaves it.\<close>

definition search_step :: "('h, 'e) BeamSearchBase \<Rightarrow> nat \<Rightarrow> nat \<Rightarrow> nat \<Rightarrow> 'e beams \<Rightarrow> error + ('e beams \<times> real list list)" where
  "search_step self bsz K i s =
     (case step self (paths s) (extra s) of
        ((V, rows), extra1) \<Rightarrow>
          (case reshape_probs bsz K V rows of
             Inl e \<Rightarrow> Inl e
           | Inr probs \<Rightarrow>
               (case score_candidates (length_penalty self) bsz K V i (log_probs s) (lengths s) probs of
                  Inl e \<Rightarrow> Inl e
                | Inr (probs', flat_scores, width) \<Rightarrow>
                    (case select flat_scores width probs' K V of
                       Inl e \<Rightarrow> Inl e
                     | Inr sel \<Rightarrow> Inr (reorder (update self) bsz K i s extra1 sel, best_scores sel)))))"

subsection \<open>The loop, the forced finalization and the call\<close>

text \<open>
  Line 2897: \<^verbatim>\<open>tf.reduce_sum(tf.cast(lengths != 0, np.int32)) == self.K\<close>. The sum runs
  over all entries of the \<open>[B, K]\<close> tensor.
\<close>

definition loop_break :: "int list list \<Rightarrow> int \<Rightarrow> bool" where
  "loop_break ls K = (sum_list (map (\<lambda>l. of_bool (l \<noteq> 0)) (concat ls)) = K)"

datatype 'e outcome =
    Broke "'e beams" "real list list"   \<comment> \<open>left by \<^verbatim>\<open>break\<close>, with the last \<^verbatim>\<open>best_scores\<close>\<close>
  | Exhausted "'e beams"                \<comment> \<open>\<^verbatim>\<open>range(mxlen - 1)\<close> ran out: the \<^verbatim>\<open>else\<close> branch follows\<close>

text \<open>The \<^verbatim>\<open>for\<close> loop from iteration \<open>i\<close> with \<open>n\<close> iterations left.\<close>

fun search_loop :: "('h, 'e) BeamSearchBase \<Rightarrow> nat \<Rightarrow> nat \<Rightarrow> nat \<Rightarrow> nat \<Rightarrow> 'e beams \<Rightarrow> error + 'e outcome" where
  "search_loop self bsz K i 0 s = Inr (Exhausted s)"
| "search_loop self bsz K i (Suc n) s =
     (case search_step self bsz K i s of
        Inl e \<Rightarrow> Inl e
      | Inr (s', scores) \<Rightarrow>
          if loop_break (lengths s') (beam self) then Inr (Broke s' scores)
          else search_loop self bsz K (Suc i) n s')"

text \<open>Lines 2902 to 2913: the \<^verbatim>\<open>else\<close> branch of the loop.\<close>

definition finalize :: "('h, 'e) BeamSearchBase \<Rightarrow> nat \<Rightarrow> nat \<Rightarrow> int \<Rightarrow> 'e beams \<Rightarrow> error + ('e beams \<times> real list list)" where
  "finalize self bsz K mxlen s =
     (case step self (paths s) (extra s) of
        ((V, rows), extra1) \<Rightarrow>
          (case reshape_probs bsz K V rows of
             Inl e \<Rightarrow> Inl e
           | Inr probs \<Rightarrow>
               if V \<le> EOS then Inl SliceOutOfBounds
               else
                 let eos_probs = tensor2 bsz K (\<lambda>b k. masked_fill (probs ! b ! k ! EOS) (lengths s ! b ! k \<noteq> 0) 0);
                     log_probs' = tensor2 bsz K (\<lambda>b k. log_probs s ! b ! k + eos_probs ! b ! k);
                     paths' = tensor2 bsz K (\<lambda>b k. paths s ! b ! k @ [EOS]);
                     lengths' = update_lengths (lengths s) (map (map (\<lambda>_. True)) (lengths s)) mxlen;
                     penalty = length_penalty self lengths';
                     scores = tensor2 bsz K (\<lambda>b k. log_probs' ! b ! k / penalty ! b ! k)
                 in Inr (\<lparr>paths = paths', log_probs = log_probs', lengths = lengths', extra = extra1\<rparr>,
                         scores)))"

text \<open>
  \<^verbatim>\<open>__call__\<close>. \<^verbatim>\<open>mxlen\<close> is the keyword argument, 100 when absent; \<open>bsz\<close> is the
  first dimension of \<^verbatim>\<open>encoder_outputs.output\<close>. The result is the paths without their
  \<^verbatim>\<open>GO\<close> token, the lengths and the scores.
\<close>

definition initial_beams :: "nat \<Rightarrow> nat \<Rightarrow> 'e \<Rightarrow> 'e beams" where
  "initial_beams bsz K extra0 =
     \<lparr>paths = tensor2 bsz K (\<lambda>_ _. [GO]),
      log_probs = tensor2 bsz K (\<lambda>_ _. 0),
      lengths = tensor2 bsz K (\<lambda>_ _. 0),
      extra = extra0\<rparr>"

definition strip_go :: "'e beams \<Rightarrow> real list list \<Rightarrow> nat list list list \<times> int list list \<times> real list list" where
  "strip_go s scores = (map (map tl) (paths s), lengths s, scores)"

definition call :: "('h, 'e) BeamSearchBase \<Rightarrow> 'h list \<Rightarrow> int option \<Rightarrow>
    error + (nat list list list \<times> int list list \<times> real list list)" where
  "call self encoder_output mxlen_kw =
     (let mxlen = (case mxlen_kw of None \<Rightarrow> 100 | Some m \<Rightarrow> m);
          bsz = length encoder_output;
          extra0 = init self encoder_output
      in if beam self < 0 then Inl NegativeDimension
         else
           let K = nat (beam self) in
           case search_loop self bsz K 0 (nat (mxlen - 1)) (initial_beams bsz K extra0) of
             Inl e \<Rightarrow> Inl e
           | Inr (Broke s scores) \<Rightarrow> Inr (strip_go s scores)
           | Inr (Exhausted s) \<Rightarrow>
               (case finalize self bsz K mxlen s of
                  Inl e \<Rightarrow> Inl e
                | Inr (s', scores) \<Rightarrow> Inr (strip_go s' scores)))"

subsection \<open>Shapes\<close>

text \<open>A \<open>[B, K]\<close> tensor: \<open>B\<close> rows of \<open>K\<close> entries each.\<close>

definition well_shaped :: "nat \<Rightarrow> nat \<Rightarrow> 'a list list \<Rightarrow> bool" where
  "well_shaped B K t = (length t = B \<and> list_all (\<lambda>r. length r = K) t)"

text \<open>The shape of a beam state for batch size \<open>bsz\<close> and \<open>K\<close> beams.\<close>

definition wf_beams :: "nat \<Rightarrow> nat \<Rightarrow> 'e beams \<Rightarrow> bool" where
  "wf_beams bsz K s =
     (well_shaped bsz K (paths s) \<and> well_shaped bsz K (log_probs s) \<and> well_shaped bsz K (lengths s))"

subsection \<open>Greedy decoding, the reference of the greedy-equivalence property\<close>

text \<open>
  This subsection follows the spec's words, not the source: "the sequence produced by
  always selecting the arg-max token at each step", for a single hypothesis, with the
  spec's termination rules (stop at the step that emits the end token, with that step's
  number as length; after \<open>mxlen - 1\<close> steps without it, append the end token and set
  the length to \<open>mxlen\<close>). \<open>argmax_token\<close> is the first index that holds the greatest
  entry, found by one scan.
\<close>

definition argmax_token :: "'a::linorder list \<Rightarrow> nat" where
  "argmax_token xs = fold (\<lambda>j best. if xs ! best < xs ! j then j else best) [0..<length xs] 0"

datatype 'e greedy_outcome = Ended "nat list" int | Running "nat list" 'e

fun greedy_loop :: "('h, 'e) BeamSearchBase \<Rightarrow> nat \<Rightarrow> nat \<Rightarrow> nat list \<Rightarrow> 'e \<Rightarrow> 'e greedy_outcome" where
  "greedy_loop self i 0 path e = Running path e"
| "greedy_loop self i (Suc n) path e =
     (case step self [[path]] e of
        ((V, rows), e1) \<Rightarrow>
          let tok = argmax_token (rows ! 0); path' = path @ [tok]
          in if tok = EOS then Ended path' (int i + 1)
             else greedy_loop self (Suc i) n path' (update self [0] e1))"

definition greedy_decode :: "('h, 'e) BeamSearchBase \<Rightarrow> 'h list \<Rightarrow> int \<Rightarrow> nat list \<times> int" where
  "greedy_decode self encoder_output mxlen =
     (case greedy_loop self 0 (nat (mxlen - 1)) [GO] (init self encoder_output) of
        Ended path len \<Rightarrow> (tl path, len)
      | Running path e \<Rightarrow> (tl (path @ [EOS]), mxlen))"

text \<open>An oracle answer for one row and one beam: one row of \<open>V\<close> entries, \<open>EOS\<close> among them.\<close>

definition single_row_ok :: "(nat \<times> real list list) \<times> 'e \<Rightarrow> bool" where
  "single_row_ok r = (case r of ((V, rows), e) \<Rightarrow> length rows = 1 \<and> length (rows ! 0) = V \<and> EOS < V)"

subsection \<open>Values of float32 that are not finite\<close>

text \<open>
  The values a \<^verbatim>\<open>float32\<close> tensor can hold, as far as the masks need them: the finite
  values (as reals, without rounding and without a signed zero), the two infinities and
  NaN, with the sums, differences and products of IEEE 754: NaN is absorbing,
  \<open>\<infinity> - \<infinity>\<close> and \<open>0 * \<infinity>\<close> are NaN.
\<close>

datatype f32 = NaN | NInf | Fin real | PInf

instantiation f32 :: "{zero_neq_one, plus, uminus, minus, times}"
begin

definition zero_f32 :: f32 where
  "zero_f32 = Fin 0"

definition one_f32 :: f32 where
  "one_f32 = Fin 1"

fun plus_f32 :: "f32 \<Rightarrow> f32 \<Rightarrow> f32" where
  "plus_f32 (Fin a) (Fin b) = Fin (a + b)"
| "plus_f32 NaN y = NaN"
| "plus_f32 x NaN = NaN"
| "plus_f32 PInf NInf = NaN"
| "plus_f32 NInf PInf = NaN"
| "plus_f32 PInf y = PInf"
| "plus_f32 x PInf = PInf"
| "plus_f32 NInf y = NInf"
| "plus_f32 x NInf = NInf"

fun uminus_f32 :: "f32 \<Rightarrow> f32" where
  "uminus_f32 (Fin a) = Fin (- a)"
| "uminus_f32 PInf = NInf"
| "uminus_f32 NInf = PInf"
| "uminus_f32 NaN = NaN"

definition minus_f32 :: "f32 \<Rightarrow> f32 \<Rightarrow> f32" where
  "minus_f32 x y = x + (- y)"

fun times_f32 :: "f32 \<Rightarrow> f32 \<Rightarrow> f32" where
  "times_f32 (Fin a) (Fin b) = Fin (a * b)"
| "times_f32 NaN y = NaN"
| "times_f32 x NaN = NaN"
| "times_f32 (Fin a) PInf = (if a = 0 then NaN else if 0 < a then PInf else NInf)"
| "times_f32 (Fin a) NInf = (if a = 0 then NaN else if 0 < a then NInf else PInf)"
| "times_f32 PInf (Fin b) = (if b = 0 then NaN else if 0 < b then PInf else NInf)"
| "times_f32 NInf (Fin b) = (if b = 0 then NaN else if 0 < b then NInf else PInf)"
| "times_f32 PInf PInf = PInf"
| "times_f32 NInf NInf = PInf"
| "times_f32 PInf NInf = NInf"
| "times_f32 NInf PInf = NInf"

instance
proof
  show "(0::f32) \<noteq> 1" by (simp add: zero_f32_def one_f32_def)
qed

end

section \<open>Example inputs\<close>

text \<open>
  A searcher with three beams over a vocabulary of four tokens. Its oracle gives every
  hypothesis the same row: at the first step nearly all mass on token 3 and the rest on
  \<open>EOS\<close>, later all mass on token 3. \<open>demo_beams\<close> is the state after its first step
  on a batch of one.
\<close>

definition demo_step :: "nat list list list \<Rightarrow> unit \<Rightarrow> (nat \<times> real list list) \<times> unit" where
  "demo_step ps e =
     ((4, concat (map (map (\<lambda>p. if length p = 1 then [- 1000000000, - 1000000000, - 5, 0]
                                  else [- 1000000000, - 1000000000, - 1000000000, 0])) ps)), e)"

definition demo :: "(unit, unit) BeamSearchBase" where
  "demo = BeamSearchBase_init 3 None (\<lambda>_. ()) demo_step (\<lambda>_ e. e)"

definition demo_beams :: "unit beams" where
  "demo_beams = \<lparr>paths = [[[1, 3], [1, 2], [1, 0]]], log_probs = [[0, - 5, - 1000000000]],
                 lengths = [[0, 1, 0]], extra = ()\<rparr>"

text \<open>The state after the second step of \<open>demo\<close>.\<close>

definition demo_beams_next :: "unit beams" where
  "demo_beams_next = \<lparr>paths = [[[1, 3, 3], [1, 2, 2], [1, 2, 0]]], log_probs = [[0, - 5, - 100000005]],
                      lengths = [[0, 1, 1]], extra = ()\<rparr>"

text \<open>
  The oracle's first output of \<open>demo\<close> for \<open>K\<close> beams, an output that agrees with it on
  beam 0 only, and a searcher with more beams than tokens.
\<close>

definition demo_rows :: "nat \<Rightarrow> real list list" where
  "demo_rows K = replicate K [- 1000000000, - 1000000000, - 5, 0]"

definition other_rows :: "real list list" where
  "other_rows = [[- 1000000000, - 1000000000, - 5, 0], [0, 0, 0, 0], [7, 7, 7, 7]]"

definition demo_wide :: "(unit, unit) BeamSearchBase" where
  "demo_wide = BeamSearchBase_init 5 None (\<lambda>_. ()) demo_step (\<lambda>_ e. e)"

text \<open>
  Scenario A of the spec: \<open>B = 1\<close>, \<open>K = 2\<close>, \<open>V = 4\<close>, and the oracle's first output
  \<open>[-\<infinity>, -\<infinity>, -5, 0]\<close> for both copies of the start hypothesis. \<open>None\<close> is
  \<open>-\<infinity>\<close>: it is below every \<open>Some x\<close>.
\<close>

definition scenario_A :: "real option list list list" where
  "scenario_A = [[[None, None, Some (- 5), Some 0], [None, None, Some (- 5), Some 0]]]"

text \<open>The output of the oracle of \<open>demo\<close> after the first step, for \<open>K\<close> beams.\<close>

definition demo_rows_late :: "nat \<Rightarrow> real list list" where
  "demo_rows_late K = replicate K [- 1000000000, - 1000000000, - 1000000000, 0]"

text \<open>
  Two searchers with one beam for a batch of two rows. The oracle of \<open>two_rows\<close> puts
  the mass of row 0 on \<open>EOS\<close> and the mass of row 1 on token 3; the oracle of
  \<open>both_end\<close> puts the mass of both rows on \<open>EOS\<close>.
\<close>

definition two_rows_step :: "nat list list list \<Rightarrow> unit \<Rightarrow> (nat \<times> real list list) \<times> unit" where
  "two_rows_step ps e = ((4, [[- 9, - 9, 0, - 9], [- 9, - 9, - 9, 0]]), e)"

definition two_rows :: "(unit, unit) BeamSearchBase" where
  "two_rows = BeamSearchBase_init 1 None (\<lambda>_. ()) two_rows_step (\<lambda>_ e. e)"

definition both_end_step :: "nat list list list \<Rightarrow> unit \<Rightarrow> (nat \<times> real list list) \<times> unit" where
  "both_end_step ps e = ((4, [[- 9, - 9, 0, - 9], [- 9, - 9, 0, - 9]]), e)"

definition both_end :: "(unit, unit) BeamSearchBase" where
  "both_end = BeamSearchBase_init 1 None (\<lambda>_. ()) both_end_step (\<lambda>_ e. e)"

text \<open>A searcher with no beam at all.\<close>

definition no_beams :: "(unit, unit) BeamSearchBase" where
  "no_beams = BeamSearchBase_init 0 None (\<lambda>_. ()) demo_step (\<lambda>_ e. e)"

text \<open>
  A searcher with one beam whose oracle serves each row by the row's own context: the
  encoder output of a row is the token the row's distribution favours, the state is the
  list of these tokens, and \<open>update\<close> reorders it by the selected beams.
\<close>

definition favourite_step :: "nat list list list \<Rightarrow> nat list \<Rightarrow> (nat \<times> real list list) \<times> nat list" where
  "favourite_step ps e = ((4, map (\<lambda>t. map (\<lambda>v. if v = t then 0 else - 9) [0, 1, 2, 3]) e), e)"

definition favourite :: "(nat, nat list) BeamSearchBase" where
  "favourite = BeamSearchBase_init 1 None (\<lambda>enc. enc) favourite_step (\<lambda>beams e. map ((!) e) beams)"

text \<open>
  A searcher with one beam for one row: token 3 while the path is shorter than three
  tokens, then \<open>EOS\<close>.
\<close>

definition countdown_step :: "nat list list list \<Rightarrow> unit \<Rightarrow> (nat \<times> real list list) \<times> unit" where
  "countdown_step ps e =
     ((4, [if length (ps ! 0 ! 0) < 3 then [- 9, - 9, - 9, 0] else [- 9, - 9, 0, - 9]]), e)"

definition countdown :: "(unit, unit) BeamSearchBase" where
  "countdown = BeamSearchBase_init 1 None (\<lambda>_. ()) countdown_step (\<lambda>_ e. e)"

section \<open>Basic lemmas\<close>

subsection \<open>Tensors\<close>

lemma length_tensor2 [simp]: "length (tensor2 B K f) = B"
  by (simp add: tensor2_def)

lemma length_tensor2_row [simp]: "b < B \<Longrightarrow> length (tensor2 B K f ! b) = K"
  by (simp add: tensor2_def)

lemma tensor2_nth [simp]: "b < B \<Longrightarrow> k < K \<Longrightarrow> tensor2 B K f ! b ! k = f b k"
  by (simp add: tensor2_def)

lemma length_tensor3 [simp]: "length (tensor3 B K V f) = B"
  by (simp add: tensor3_def)

lemma length_tensor3_row [simp]: "b < B \<Longrightarrow> length (tensor3 B K V f ! b) = K"
  by (simp add: tensor3_def)

lemma length_tensor3_col [simp]: "b < B \<Longrightarrow> k < K \<Longrightarrow> length (tensor3 B K V f ! b ! k) = V"
  by (simp add: tensor3_def)

lemma tensor3_nth [simp]: "b < B \<Longrightarrow> k < K \<Longrightarrow> v < V \<Longrightarrow> tensor3 B K V f ! b ! k ! v = f b k v"
  by (simp add: tensor3_def)

lemma well_shaped_tensor2 [simp]: "well_shaped B K (tensor2 B K f)"
  by (simp add: well_shaped_def tensor2_def list_all_iff)

lemma well_shaped_row: "well_shaped B K t \<Longrightarrow> b < B \<Longrightarrow> length (t ! b) = K"
  by (auto simp: well_shaped_def list_all_length)

lemma concat_nth_uniform:
  "list_all (\<lambda>r. length r = n) xss \<Longrightarrow> b < length xss \<Longrightarrow> j < n \<Longrightarrow> concat xss ! (b * n + j) = xss ! b ! j"
proof (induction xss arbitrary: b)
  case Nil
  then show ?case by simp
next
  case (Cons xs xss)
  show ?case
  proof (cases b)
    case 0
    with Cons.prems show ?thesis by (simp add: nth_append)
  next
    case (Suc b')
    with Cons.prems have "concat xss ! (b' * n + j) = xss ! b' ! j"
      by (intro Cons.IH) auto
    with Suc Cons.prems show ?thesis by (simp add: nth_append)
  qed
qed

lemma length_concat_uniform:
  "list_all (\<lambda>r. length r = n) xss \<Longrightarrow> length (concat xss) = length xss * n"
  by (induction xss) auto

lemma concat_nth_div_mod:
  assumes "list_all (\<lambda>r. length r = n) xss" "i < length xss * n"
  shows "concat xss ! i = xss ! (i div n) ! (i mod n)"
proof -
  have n: "0 < n" using assms(2) by (cases n) auto
  have "i div n < length xss" using assms(2) n by (simp add: less_mult_imp_div_less)
  moreover have "i mod n < n" using n by simp
  ultimately have "concat xss ! (i div n * n + i mod n) = xss ! (i div n) ! (i mod n)"
    using assms(1) by (rule concat_nth_uniform[rotated])
  then show ?thesis by simp
qed

lemma masked_fill_False [simp]: "masked_fill (t :: 'a::ring_1) False v = t"
  by (simp add: masked_fill_def)

lemma masked_fill_True [simp]: "masked_fill (t :: 'a::ring_1) True v = v"
  by (simp add: masked_fill_def)

lemma masked_fill_if: "masked_fill (t :: 'a::ring_1) m v = (if m then v else t)"
  by (simp add: masked_fill_def)

lemma masked_fill_finite: "masked_fill (Fin t) m (Fin v) = Fin (masked_fill t m v)"
  by (cases m) (simp_all add: masked_fill_def zero_f32_def one_f32_def minus_f32_def)

lemma masked_fill_f32:
  "masked_fill t m (Fin v) = (if m then (case t of Fin x \<Rightarrow> Fin v | _ \<Rightarrow> NaN) else t)"
  by (cases m; cases t) (simp_all add: masked_fill_def zero_f32_def one_f32_def minus_f32_def)

text \<open>
  The lengths of the source are \<^verbatim>\<open>int32\<close>. On values in that range \<open>masked_fill\<close>
  over 32-bit words, read as signed, is \<open>masked_fill\<close> over the integers; a fill value
  outside the range wraps around.
\<close>

lemma masked_fill_int32:
  assumes "- 2147483648 \<le> l" "l \<le> 2147483647" "- 2147483648 \<le> v" "v \<le> 2147483647"
  shows "sint (masked_fill (word_of_int l :: 32 word) m (word_of_int v)) = masked_fill l m v"
proof -
  have "sint (word_of_int x :: 32 word) = x" if "- 2147483648 \<le> x" "x \<le> 2147483647" for x
    using that by (simp add: sint_sbintrunc' signed_take_bit_int_eq_self)
  then show ?thesis using assms by (cases m) (simp_all add: masked_fill_def)
qed

lemma masked_fill_int32_wraps:
  "sint (masked_fill (0 :: 32 word) True (word_of_int (- 2147483649))) = 2147483647"
  by (simp add: masked_fill_def)

lemma update_lengths_nth:
  "b < length ls \<Longrightarrow> b < length es \<Longrightarrow> j < length (ls ! b) \<Longrightarrow> j < length (es ! b) \<Longrightarrow>
   update_lengths ls es idx ! b ! j = (if ls ! b ! j = 0 \<and> es ! b ! j then idx else ls ! b ! j)"
  by (simp add: update_lengths_def masked_fill_if)

lemma length_update_lengths [simp]: "length (update_lengths ls es idx) = min (length ls) (length es)"
  by (simp add: update_lengths_def)

lemma flat_beams_nth:
  "b < bsz \<Longrightarrow> j < K \<Longrightarrow> flat_beams bsz K sel ! (b * K + j) = best_beams sel ! b ! j + b * K"
  unfolding flat_beams_def
  by (subst concat_nth_uniform) (simp_all add: tensor2_def list_all_iff)

lemma gather_lengths_nth:
  assumes "well_shaped bsz K ls" "b < bsz" "j < K" "best_beams sel ! b ! j < K"
  shows "gather_lengths bsz K ls sel ! b ! j = ls ! b ! (best_beams sel ! b ! j)"
proof -
  have "concat ls ! (b * K + best_beams sel ! b ! j) = ls ! b ! (best_beams sel ! b ! j)"
    using assms by (intro concat_nth_uniform) (auto simp: well_shaped_def)
  moreover have "flat_beams bsz K sel ! (b * K + j) = b * K + best_beams sel ! b ! j"
    using assms by (simp add: flat_beams_nth)
  ultimately show ?thesis using assms by (simp add: gather_lengths_def)
qed

subsection \<open>Ranking and selection\<close>

lemma set_insert_ranked [simp]: "set (insert_ranked xs i js) = insert i (set js)"
  by (induction js) auto

lemma length_insert_ranked [simp]: "length (insert_ranked xs i js) = Suc (length js)"
  by (induction js) auto

lemma distinct_insert_ranked [simp]:
  "distinct (insert_ranked xs i js) \<longleftrightarrow> i \<notin> set js \<and> distinct js"
  by (induction js) auto

lemma set_foldl_insert_ranked:
  "set (foldl (\<lambda>acc i. insert_ranked xs i acc) acc is) = set acc \<union> set is"
  by (induction "is" arbitrary: acc) auto

lemma length_foldl_insert_ranked:
  "length (foldl (\<lambda>acc i. insert_ranked xs i acc) acc is) = length acc + length is"
  by (induction "is" arbitrary: acc) auto

lemma distinct_foldl_insert_ranked:
  "distinct (acc @ is) \<Longrightarrow> distinct (foldl (\<lambda>acc i. insert_ranked xs i acc) acc is)"
  by (induction "is" arbitrary: acc) auto

lemma set_ranking [simp]: "set (ranking xs) = {0..<length xs}"
  by (simp add: ranking_def set_foldl_insert_ranked)

lemma length_ranking [simp]: "length (ranking xs) = length xs"
  by (simp add: ranking_def length_foldl_insert_ranked)

lemma distinct_ranking [simp]: "distinct (ranking xs)"
  by (simp add: ranking_def distinct_foldl_insert_ranked)

lemma take_ranking_less: "j < k \<Longrightarrow> k \<le> length xs \<Longrightarrow> take k (ranking xs) ! j < length xs"
proof -
  assume a: "j < k" "k \<le> length xs"
  then have "j < length (ranking xs)" by simp
  then have "ranking xs ! j \<in> set (ranking xs)" by (rule nth_mem)
  then have "ranking xs ! j < length xs" by simp
  then show ?thesis using a by simp
qed

lemma reshape_probs_Inr:
  "reshape_probs bsz K V rows = Inr probs \<longleftrightarrow>
   length rows = bsz * K \<and> list_all (\<lambda>r. length r = V) rows \<and>
   probs = tensor3 bsz K V (\<lambda>b k v. rows ! (b * K + k) ! v)"
  by (auto simp: reshape_probs_def)

lemma select_Inr:
  "select fs w c K V = Inr sel \<longleftrightarrow>
     K \<le> w \<and>
     sel = \<lparr>best_scores = map (\<lambda>row. map ((!) row) (take K (ranking row))) fs,
            best_idx = map (\<lambda>row. take K (ranking row)) fs,
            sel_log_probs = gather_k fs (map concat c) (map (\<lambda>row. take K (ranking row)) fs) K,
            best_beams = map (map (\<lambda>x. x div V)) (map (\<lambda>row. take K (ranking row)) fs),
            tokens = map (map (\<lambda>x. x mod V)) (map (\<lambda>row. take K (ranking row)) fs)\<rparr>"
  by (auto simp: select_def top_k_def)

lemma select_Inl: "select fs w c K V = Inl e \<longleftrightarrow> w < K \<and> e = TopKOutOfRange"
  by (auto simp: select_def top_k_def)


lemma length_concat_tensor_row:
  "b < B \<Longrightarrow> length (concat (tensor3 B K V f ! b)) = K * V"
  by (simp add: tensor3_def length_concat o_def sum_list_triv)

lemma score_candidates_shape:
  assumes "reshape_probs bsz K V rows = Inr probs"
    and "score_candidates pen bsz K V i lp ls probs = Inr (c, fs, w)"
  shows "length fs = bsz" and "\<And>b. b < bsz \<Longrightarrow> length (fs ! b) = w"
    and "w = (if i > 0 then K * V else V)" and "0 < K \<or> 0 < i"
proof -
  from assms(1) have p: "probs = tensor3 bsz K V (\<lambda>b k v. rows ! (b * K + k) ! v)"
    by (simp add: reshape_probs_Inr)
  show "length fs = bsz"
    using assms(2) p
    by (auto simp: score_candidates_def first_beam_scores_def penalized_def Let_def split: if_splits)
  show "w = (if i > 0 then K * V else V)"
    using assms(2)
    by (auto simp: score_candidates_def first_beam_scores_def Let_def split: if_splits)
  show "0 < K \<or> 0 < i"
    using assms(2)
    by (auto simp: score_candidates_def first_beam_scores_def Let_def split: if_splits)
  show "length (fs ! b) = w" if "b < bsz" for b
    using assms(2) p that
    by (auto simp: score_candidates_def first_beam_scores_def penalized_def Let_def
        length_concat_tensor_row split: if_splits)
qed

lemma selected_in_range:
  assumes "reshape_probs bsz K V rows = Inr probs"
    and "score_candidates pen bsz K V i lp ls probs = Inr (c, fs, w)"
    and "select fs w c K V = Inr sel"
    and "b < bsz" "j < K"
  shows "best_idx sel ! b ! j < w" and "best_beams sel ! b ! j < K"
    and "best_beams sel ! b ! j = best_idx sel ! b ! j div V"
    and "tokens sel ! b ! j = best_idx sel ! b ! j mod V"
    and "length (best_idx sel ! b) = K"
proof -
  note sh = score_candidates_shape[OF assms(1,2)]
  from assms(3) have kw: "K \<le> w" and bi: "best_idx sel = map (\<lambda>row. take K (ranking row)) fs"
    and bb: "best_beams sel = map (map (\<lambda>x. x div V)) (best_idx sel)"
    and tk: "tokens sel = map (map (\<lambda>x. x mod V)) (best_idx sel)"
    by (simp_all add: select_Inr)
  have row: "best_idx sel ! b = take K (ranking (fs ! b))"
    using bi sh(1) assms(4) by simp
  have len: "length (fs ! b) = w" using sh(2) assms(4) by simp
  show l: "length (best_idx sel ! b) = K" using row len kw by simp
  show lt: "best_idx sel ! b ! j < w"
    using take_ranking_less[of j K "fs ! b"] assms(5) kw len row by simp
  show d: "best_beams sel ! b ! j = best_idx sel ! b ! j div V"
    using bb bi sh(1) assms(4,5) l by simp
  show "tokens sel ! b ! j = best_idx sel ! b ! j mod V"
    using tk bi sh(1) assms(4,5) l by simp
  show "best_beams sel ! b ! j < K"
  proof (cases "i > 0")
    case True
    then have "w = K * V" using sh(3) by simp
    then have "best_idx sel ! b ! j < K * V" using lt by simp
    then have "best_idx sel ! b ! j div V < K"
      by (simp add: less_mult_imp_div_less mult.commute)
    then show ?thesis using d by simp
  next
    case False
    then have "w = V" "0 < K" using sh(3,4) by auto
    then show ?thesis using d lt by simp
  qed
qed

lemma search_step_Inr:
  "search_step self bsz K i s = Inr (s', sc) \<longleftrightarrow>
     (\<exists>V rows extra1 probs c fs w sel.
        step self (paths s) (extra s) = ((V, rows), extra1) \<and>
        reshape_probs bsz K V rows = Inr probs \<and>
        score_candidates (length_penalty self) bsz K V i (log_probs s) (lengths s) probs = Inr (c, fs, w) \<and>
        select fs w c K V = Inr sel \<and>
        s' = reorder (update self) bsz K i s extra1 sel \<and> sc = best_scores sel)"
  by (auto simp: search_step_def split: prod.splits sum.splits)

subsection \<open>Reordering and finalization\<close>

lemma gather_paths_nth:
  assumes "well_shaped bsz K ps" "b < bsz" "j < K" "best_beams sel ! b ! j < K"
  shows "gather_paths bsz K ps sel ! b ! j = ps ! b ! (best_beams sel ! b ! j) @ [tokens sel ! b ! j]"
proof -
  have "concat ps ! (b * K + best_beams sel ! b ! j) = ps ! b ! (best_beams sel ! b ! j)"
    using assms by (intro concat_nth_uniform) (auto simp: well_shaped_def)
  moreover have "flat_beams bsz K sel ! (b * K + j) = b * K + best_beams sel ! b ! j"
    using assms by (simp add: flat_beams_nth)
  ultimately show ?thesis using assms by (simp add: gather_paths_def)
qed

lemma reorder_lengths_nth:
  assumes "b < bsz" "j < K"
  shows "lengths (reorder upd bsz K i s e1 sel) ! b ! j =
           (if gather_lengths bsz K (lengths s) sel ! b ! j = 0 \<and>
               last (gather_paths bsz K (paths s) sel ! b ! j) = EOS
            then int i + 1 else gather_lengths bsz K (lengths s) sel ! b ! j)"
proof -
  have "length (gather_lengths bsz K (lengths s) sel) = bsz"
    and "length (gather_lengths bsz K (lengths s) sel ! b) = K"
    using assms by (simp_all add: gather_lengths_def)
  then show ?thesis
    using assms by (simp add: reorder_def Let_def update_lengths_nth)
qed

lemma step_keeps_frozen:
  assumes "well_shaped bsz K (lengths s)" "well_shaped bsz K (paths s)" "b < bsz" "j < K"
    and "search_step self bsz K i s = Inr (s', sc)"
  shows "\<exists>origin<K. \<exists>tok. paths s' ! b ! j = paths s ! b ! origin @ [tok] \<and>
           (lengths s ! b ! origin \<noteq> 0 \<longrightarrow> lengths s' ! b ! j = lengths s ! b ! origin)"
proof -
  from assms(5) obtain V rows extra1 probs c fs w sel where
    r: "reshape_probs bsz K V rows = Inr probs"
    and sc: "score_candidates (length_penalty self) bsz K V i (log_probs s) (lengths s) probs = Inr (c, fs, w)"
    and sl: "select fs w c K V = Inr sel"
    and s': "s' = reorder (update self) bsz K i s extra1 sel"
    by (auto simp: search_step_Inr)
  let ?o = "best_beams sel ! b ! j"
  have o: "?o < K" using selected_in_range(2)[OF r sc sl assms(3,4)] .
  have p: "paths s' ! b ! j = paths s ! b ! ?o @ [tokens sel ! b ! j]"
    using gather_paths_nth[OF assms(2,3,4) o] s' by (simp add: reorder_def Let_def)
  have g: "gather_lengths bsz K (lengths s) sel ! b ! j = lengths s ! b ! ?o"
    using gather_lengths_nth[OF assms(1,3,4) o] .
  have "lengths s ! b ! ?o \<noteq> 0 \<longrightarrow> lengths s' ! b ! j = lengths s ! b ! ?o"
    using reorder_lengths_nth[OF assms(3,4), of "update self" i s extra1 sel] g s' by simp
  with o p show ?thesis by blast
qed

lemma finalize_Inr:
  "finalize self bsz K mxlen s = Inr (s', sc) \<longleftrightarrow>
     (\<exists>V rows extra1 probs.
        step self (paths s) (extra s) = ((V, rows), extra1) \<and>
        reshape_probs bsz K V rows = Inr probs \<and> EOS < V \<and>
        s' = \<lparr>paths = tensor2 bsz K (\<lambda>b k. paths s ! b ! k @ [EOS]),
              log_probs = tensor2 bsz K (\<lambda>b k. log_probs s ! b ! k +
                 tensor2 bsz K (\<lambda>b k. masked_fill (probs ! b ! k ! EOS) (lengths s ! b ! k \<noteq> 0) 0) ! b ! k),
              lengths = update_lengths (lengths s) (map (map (\<lambda>_. True)) (lengths s)) mxlen,
              extra = extra1\<rparr> \<and>
        sc = tensor2 bsz K (\<lambda>b k.
               tensor2 bsz K (\<lambda>b k. log_probs s ! b ! k +
                 tensor2 bsz K (\<lambda>b k. masked_fill (probs ! b ! k ! EOS) (lengths s ! b ! k \<noteq> 0) 0) ! b ! k) ! b ! k
               / length_penalty self (update_lengths (lengths s) (map (map (\<lambda>_. True)) (lengths s)) mxlen) ! b ! k))"
  by (auto simp: finalize_def Let_def split: prod.splits sum.splits)

lemma finalize_lengths_nth:
  assumes "well_shaped bsz K (lengths s)" "b < bsz" "j < K"
    and "finalize self bsz K mxlen s = Inr (s', sc)"
  shows "lengths s' ! b ! j = (if lengths s ! b ! j = 0 then mxlen else lengths s ! b ! j)"
proof -
  have l: "length (lengths s) = bsz" "length (lengths s ! b) = K"
    using assms(1,2) by (auto simp: well_shaped_def list_all_length)
  from assms(4) have "lengths s' = update_lengths (lengths s) (map (map (\<lambda>_. True)) (lengths s)) mxlen"
    by (auto simp: finalize_Inr)
  then show ?thesis using l assms(2,3) by (simp add: update_lengths_nth)
qed

subsection \<open>The first iteration\<close>

lemma tensor2_cong:
  "(\<And>b k. b < B \<Longrightarrow> k < K \<Longrightarrow> f b k = g b k) \<Longrightarrow> tensor2 B K f = tensor2 B K g"
  by (simp add: tensor2_def)

lemma score_candidates_first:
  "0 < K \<Longrightarrow> score_candidates pen bsz K V 0 lp ls probs = Inr (probs, map (\<lambda>row. row ! 0) probs, V)"
  by (simp add: score_candidates_def first_beam_scores_def)

lemma first_scores_rows:
  assumes "reshape_probs bsz K V rows = Inr probs" "0 < K"
  shows "map (\<lambda>row. row ! 0) probs = map (\<lambda>b. rows ! (b * K)) [0..<bsz]"
proof -
  from assms(1) have p: "probs = tensor3 bsz K V (\<lambda>b k v. rows ! (b * K + k) ! v)"
    and len: "length rows = bsz * K" and all: "list_all (\<lambda>r. length r = V) rows"
    by (simp_all add: reshape_probs_Inr)
  have "map (\<lambda>v. rows ! (b * K) ! v) [0..<V] = rows ! (b * K)" if "b < bsz" for b
  proof -
    have "b * K < bsz * K" using that assms(2) by simp
    then have "length (rows ! (b * K)) = V" using len all by (simp add: list_all_length)
    then show ?thesis using map_nth[of "rows ! (b * K)"] by simp
  qed
  then show ?thesis using assms(2) by (simp add: p tensor3_def)
qed

lemma first_block_of_concat:
  assumes "reshape_probs bsz K V rows = Inr probs" "0 < K" "b < bsz" "x < V"
  shows "map concat probs ! b ! x = rows ! (b * K) ! x"
proof -
  from assms(1) have p: "probs = tensor3 bsz K V (\<lambda>b k v. rows ! (b * K + k) ! v)"
    by (simp add: reshape_probs_Inr)
  have sh: "list_all (\<lambda>r. length r = V) (probs ! b)" "length (probs ! b) = K"
    using assms(3) by (simp_all add: p tensor3_def list_all_iff)
  have "concat (probs ! b) ! (0 * V + x) = probs ! b ! 0 ! x"
    using sh assms(2,4) by (intro concat_nth_uniform) simp_all
  then show ?thesis using assms p by simp
qed

lemma search_step_first:
  "search_step self bsz K 0 s =
     (case step self (paths s) (extra s) of
        ((V, rows), extra1) \<Rightarrow>
          (case reshape_probs bsz K V rows of
             Inl e \<Rightarrow> Inl e
           | Inr probs \<Rightarrow>
               (case first_selection K V probs of
                  Inl e \<Rightarrow> Inl e
                | Inr sel \<Rightarrow> Inr (reorder (update self) bsz K 0 s extra1 sel, best_scores sel))))"
  by (simp add: search_step_def score_candidates_def first_selection_def
      split: prod.splits sum.splits)

subsection \<open>Scores and log-probabilities of the selected candidates\<close>

lemma concat_tensor3_nth:
  assumes "b < B" "x < K * V"
  shows "concat (tensor3 B K V f ! b) ! x = f b (x div V) (x mod V)"
proof -
  have v: "0 < V" using assms(2) by (cases V) auto
  have d: "x div V < K" using assms(2) by (simp add: less_mult_imp_div_less mult.commute)
  have "list_all (\<lambda>r. length r = V) (tensor3 B K V f ! b)" "length (tensor3 B K V f ! b) = K"
    using assms(1) by (simp_all add: tensor3_def list_all_iff)
  then have "concat (tensor3 B K V f ! b) ! x = tensor3 B K V f ! b ! (x div V) ! (x mod V)"
    using assms(2) by (simp add: concat_nth_div_mod)
  then show ?thesis using assms(1) d v by simp
qed

lemma score_candidates_later:
  "0 < i \<Longrightarrow> score_candidates pen bsz K V i lp ls probs =
     Inr (add_log_probs bsz K V lp (mask_finished bsz K V ls probs),
          map concat (penalized bsz K V (add_log_probs bsz K V lp (mask_finished bsz K V ls probs))
                        (pen (valid_lengths bsz K ls i))),
          K * V)"
  by (simp add: score_candidates_def Let_def)

lemma best_scores_nth:
  assumes "reshape_probs bsz K V rows = Inr probs"
    and "score_candidates pen bsz K V i lp ls probs = Inr (c, fs, w)"
    and "select fs w c K V = Inr sel" and "b < bsz" "j < K"
  shows "best_scores sel ! b ! j = fs ! b ! (best_idx sel ! b ! j)"
    and "sel_log_probs sel ! b ! j = map concat c ! b ! (best_idx sel ! b ! j)"
proof -
  note sh = score_candidates_shape[OF assms(1,2)]
  have l: "length (best_idx sel ! b) = K"
    using selected_in_range(5)[OF assms(1,2,3,4)] assms(5) by blast
  have "best_scores sel ! b = map ((!) (fs ! b)) (best_idx sel ! b)"
    using assms(3,4) sh(1) by (simp add: select_Inr)
  then show "best_scores sel ! b ! j = fs ! b ! (best_idx sel ! b ! j)"
    using l assms(5) by simp
  have "sel_log_probs sel = gather_k fs (map concat c) (best_idx sel) K"
    using assms(3) by (simp add: select_Inr)
  then show "sel_log_probs sel ! b ! j = map concat c ! b ! (best_idx sel ! b ! j)"
    using assms(4,5) sh(1) by (simp add: gather_k_def)
qed

lemma log_probs_reorder [simp]: "log_probs (reorder upd bsz K i s e1 sel) = sel_log_probs sel"
  by (simp add: reorder_def Let_def)

lemma later_step_log_probs:
  assumes "reshape_probs bsz K V rows = Inr probs"
    and "score_candidates pen bsz K V i lp ls probs = Inr (c, fs, w)"
    and "select fs w c K V = Inr sel" and "b < bsz" "j < K" and "0 < i"
  shows "sel_log_probs sel ! b ! j =
           lp ! b ! (best_beams sel ! b ! j) +
           mask_finished bsz K V ls probs ! b ! (best_beams sel ! b ! j) ! (tokens sel ! b ! j)"
    and "best_scores sel ! b ! j =
           sel_log_probs sel ! b ! j / pen (valid_lengths bsz K ls i) ! b ! (best_beams sel ! b ! j)"
proof -
  let ?x = "best_idx sel ! b ! j"
  from assms(2,6) have c: "c = add_log_probs bsz K V lp (mask_finished bsz K V ls probs)"
    and fs: "fs = map concat (penalized bsz K V c (pen (valid_lengths bsz K ls i)))"
    and w: "w = K * V"
    by (auto simp: score_candidates_later)
  have x: "?x < K * V" using selected_in_range(1)[OF assms(1,2,3,4,5)] w by simp
  have bm: "best_beams sel ! b ! j = ?x div V" and tk: "tokens sel ! b ! j = ?x mod V"
    using selected_in_range(3,4)[OF assms(1,2,3,4,5)] by simp_all
  have v: "0 < V" using x by (cases V) auto
  have d: "?x div V < K" using x by (simp add: less_mult_imp_div_less mult.commute)
  have "sel_log_probs sel ! b ! j = concat (c ! b) ! ?x"
    using best_scores_nth(2)[OF assms(1,2,3,4,5)] assms(4) c by (simp add: add_log_probs_def)
  also have "\<dots> = lp ! b ! (?x div V) + mask_finished bsz K V ls probs ! b ! (?x div V) ! (?x mod V)"
    unfolding c add_log_probs_def using assms(4) x by (simp add: concat_tensor3_nth)
  finally show g: "sel_log_probs sel ! b ! j =
           lp ! b ! (best_beams sel ! b ! j) +
           mask_finished bsz K V ls probs ! b ! (best_beams sel ! b ! j) ! (tokens sel ! b ! j)"
    using bm tk by simp
  have cn: "c ! b ! (?x div V) ! (?x mod V) =
      lp ! b ! (?x div V) + mask_finished bsz K V ls probs ! b ! (?x div V) ! (?x mod V)"
    unfolding c add_log_probs_def using assms(4) d v by simp
  have "best_scores sel ! b ! j = fs ! b ! ?x"
    using best_scores_nth(1)[OF assms(1,2,3,4,5)] .
  also have "\<dots> = concat (penalized bsz K V c (pen (valid_lengths bsz K ls i)) ! b) ! ?x"
    using fs assms(4) by (simp add: penalized_def)
  also have "\<dots> = c ! b ! (?x div V) ! (?x mod V) / pen (valid_lengths bsz K ls i) ! b ! (?x div V)"
    unfolding penalized_def using assms(4) x by (simp add: concat_tensor3_nth)
  finally show "best_scores sel ! b ! j =
           sel_log_probs sel ! b ! j / pen (valid_lengths bsz K ls i) ! b ! (best_beams sel ! b ! j)"
    using cn g bm tk by simp
qed


subsection \<open>Masking and the shape invariant\<close>

lemma mask_finished_nth:
  "b < bsz \<Longrightarrow> k < K \<Longrightarrow> v < V \<Longrightarrow>
   mask_finished bsz K V ls probs ! b ! k ! v =
     (if ls ! b ! k \<noteq> 0 then (if v = EOS then 0 else - 100000000) else probs ! b ! k ! v)"
  by (simp add: mask_finished_def masked_fill_if)

lemma well_shaped_update_lengths:
  "well_shaped B K ls \<Longrightarrow> well_shaped B K es \<Longrightarrow> well_shaped B K (update_lengths ls es idx)"
  by (auto simp: well_shaped_def update_lengths_def list_all_length)

lemma wf_initial_beams [simp]: "wf_beams bsz K (initial_beams bsz K e)"
  by (simp add: wf_beams_def initial_beams_def)

lemma wf_search_step:
  assumes "search_step self bsz K i s = Inr (s', sc)"
  shows "wf_beams bsz K s'"
proof -
  from assms obtain V rows extra1 probs c fs w sel where
    r: "reshape_probs bsz K V rows = Inr probs"
    and sco: "score_candidates (length_penalty self) bsz K V i (log_probs s) (lengths s) probs = Inr (c, fs, w)"
    and sl: "select fs w c K V = Inr sel"
    and s': "s' = reorder (update self) bsz K i s extra1 sel"
    by (auto simp: search_step_Inr)
  have "length fs = bsz" using score_candidates_shape(1)[OF r sco] .
  then have "well_shaped bsz K (sel_log_probs sel)"
    using sl by (simp add: select_Inr gather_k_def)
  moreover have "well_shaped bsz K (gather_paths bsz K (paths s) sel)"
    by (simp add: gather_paths_def Let_def)
  moreover have "well_shaped bsz K (lengths s')"
    unfolding s' by (simp add: reorder_def Let_def gather_lengths_def well_shaped_update_lengths)
  ultimately show ?thesis
    unfolding s' wf_beams_def by (simp add: reorder_def Let_def)
qed

lemma wf_search_loop:
  "wf_beams bsz K s \<Longrightarrow> search_loop self bsz K i n s = Inr r \<Longrightarrow>
   (case r of Broke s' sc \<Rightarrow> wf_beams bsz K s' | Exhausted s' \<Rightarrow> wf_beams bsz K s')"
proof (induction n arbitrary: i s)
  case 0
  then show ?case by auto
next
  case (Suc n)
  from Suc.prems(2) obtain s1 sc1 where st: "search_step self bsz K i s = Inr (s1, sc1)"
    by (auto split: sum.splits)
  have wf1: "wf_beams bsz K s1" using wf_search_step[OF st] .
  show ?case
  proof (cases "loop_break (lengths s1) (beam self)")
    case True
    with Suc.prems(2) st have "r = Broke s1 sc1" by simp
    with wf1 show ?thesis by simp
  next
    case False
    with Suc.prems(2) st have "search_loop self bsz K (Suc i) n s1 = Inr r" by simp
    with wf1 show ?thesis by (rule Suc.IH)
  qed
qed

subsection \<open>Counting finished beams, equal tensors\<close>

lemma count_nonzero_le:
  "sum_list (map (\<lambda>l. of_bool (P l)) xs) \<le> int (length xs)"
  by (induction xs) auto

lemma count_nonzero_eq:
  "sum_list (map (\<lambda>l. of_bool (P l)) xs) = int (length xs) \<longleftrightarrow> list_all P xs"
proof (induction xs)
  case Nil
  then show ?case by simp
next
  case (Cons x xs)
  show ?case
    using Cons.IH count_nonzero_le[of P xs] by (cases "P x") auto
qed

lemma well_shaped_eqI:
  assumes "well_shaped B K x" "well_shaped B K y"
    and "\<And>b k. b < B \<Longrightarrow> k < K \<Longrightarrow> x ! b ! k = y ! b ! k"
  shows "x = y"
proof (rule nth_equalityI)
  show "length x = length y" using assms(1,2) by (simp add: well_shaped_def)
next
  fix b assume "b < length x"
  then have b: "b < B" using assms(1) by (simp add: well_shaped_def)
  have "length (x ! b) = K" "length (y ! b) = K"
    using assms(1,2) b by (simp_all add: well_shaped_row)
  then show "x ! b = y ! b"
    using assms(3)[OF b] by (simp add: list_eq_iff_nth_eq)
qed

lemma map_map_tensor2: "map (map f) (tensor2 B K g) = tensor2 B K (\<lambda>b k. f (g b k))"
  by (simp add: tensor2_def)

lemma update_lengths_all:
  "update_lengths (tensor2 B K (\<lambda>_ _. 0)) (map (map (\<lambda>_. True)) (tensor2 B K (\<lambda>_ _. 0))) m
     = tensor2 B K (\<lambda>_ _. m)"
proof (rule well_shaped_eqI[of B K])
  show "well_shaped B K (update_lengths (tensor2 B K (\<lambda>_ _. 0))
      (map (map (\<lambda>_. True)) (tensor2 B K (\<lambda>_ _. 0))) m)"
    by (simp add: well_shaped_update_lengths map_map_tensor2)
  show "well_shaped B K (tensor2 B K (\<lambda>_ _. m))" by simp
next
  fix b k assume "b < B" "k < K"
  then show "update_lengths (tensor2 B K (\<lambda>_ _. 0))
      (map (map (\<lambda>_. True)) (tensor2 B K (\<lambda>_ _. 0))) m ! b ! k = tensor2 B K (\<lambda>_ _. m) ! b ! k"
    by (simp add: update_lengths_nth map_map_tensor2)
qed

subsection \<open>One row, one beam\<close>

lemma insert_ranked_cong:
  assumes "\<And>a b. a < n \<Longrightarrow> b < n \<Longrightarrow> (ys ! a < ys ! b) = (xs ! a < xs ! b)"
    and "i < n" and "set js \<subseteq> {0..<n}"
  shows "insert_ranked ys i js = insert_ranked xs i js"
  using assms(3)
proof (induction js)
  case Nil
  then show ?case by simp
next
  case (Cons j js)
  then have "j < n" by simp
  then have "(ys ! j < ys ! i) = (xs ! j < xs ! i)" using assms(1,2) by simp
  with Cons show ?case by simp
qed

lemma ranking_upto_Suc:
  "foldl (\<lambda>acc i. insert_ranked xs i acc) [] [0..<Suc m] =
     insert_ranked xs m (foldl (\<lambda>acc i. insert_ranked xs i acc) [] [0..<m])"
  by simp

lemma ranking_upto_cong:
  assumes "\<And>a b. a < n \<Longrightarrow> b < n \<Longrightarrow> (ys ! a < ys ! b) = (xs ! a < xs ! b)"
  shows "m \<le> n \<Longrightarrow> foldl (\<lambda>acc i. insert_ranked ys i acc) [] [0..<m] =
                  foldl (\<lambda>acc i. insert_ranked xs i acc) [] [0..<m]"
proof (induction m)
  case 0
  then show ?case by simp
next
  case (Suc m)
  let ?r = "foldl (\<lambda>acc i. insert_ranked xs i acc) [] [0..<m]"
  have "set ?r = {0..<m}" by (simp add: set_foldl_insert_ranked)
  then have "set ?r \<subseteq> {0..<n}" using Suc.prems by auto
  then have "insert_ranked ys m ?r = insert_ranked xs m ?r"
    using insert_ranked_cong[of n ys xs m ?r] assms Suc.prems by simp
  then show ?case using Suc by simp
qed

lemma ranking_cong:
  assumes "length ys = length xs"
    and "\<And>a b. a < length xs \<Longrightarrow> b < length xs \<Longrightarrow> (ys ! a < ys ! b) = (xs ! a < xs ! b)"
  shows "ranking ys = ranking xs"
  unfolding ranking_def assms(1)
  by (rule ranking_upto_cong[of "length xs"]) (use assms(2) in auto)

lemma argmax_upto_Suc:
  "fold (\<lambda>j best. if xs ! best < xs ! j then j else best) [0..<Suc m] b =
     (let best = fold (\<lambda>j best. if xs ! best < xs ! j then j else best) [0..<m] b
      in if xs ! best < xs ! m then m else best)"
  by simp

lemma hd_ranking_upto:
  "hd (foldl (\<lambda>acc i. insert_ranked xs i acc) [] [0..<Suc m]) =
     fold (\<lambda>j best. if xs ! best < xs ! j then j else best) [0..<Suc m] 0"
proof (induction m)
  case 0
  then show ?case by simp
next
  case (Suc m)
  define r where "r = foldl (\<lambda>acc i. insert_ranked xs i acc) [] [0..<Suc m]"
  define a where "a = fold (\<lambda>j best. if xs ! best < xs ! j then j else best) [0..<Suc m] 0"
  have "length r = Suc m" unfolding r_def by (simp add: length_foldl_insert_ranked)
  then obtain h rest where hr: "r = h # rest" by (metis length_Suc_conv)
  have "hd r = a" unfolding r_def a_def by (rule Suc.IH)
  then have h: "h = a" using hr by simp
  have "hd (foldl (\<lambda>acc i. insert_ranked xs i acc) [] [0..<Suc (Suc m)]) =
      hd (insert_ranked xs (Suc m) r)"
    unfolding r_def by (simp only: ranking_upto_Suc)
  also have "\<dots> = (if xs ! a < xs ! Suc m then Suc m else a)"
    by (simp add: hr h)
  also have "\<dots> = fold (\<lambda>j best. if xs ! best < xs ! j then j else best) [0..<Suc (Suc m)] 0"
    unfolding a_def by (simp only: argmax_upto_Suc[of xs "Suc m"] Let_def)
  finally show ?case .
qed

lemma take_one_ranking:
  assumes "xs \<noteq> []"
  shows "take 1 (ranking xs) = [argmax_token xs]"
proof -
  obtain m where m: "length xs = Suc m" using assms by (cases xs) auto
  have "length (ranking xs) = Suc m" using m by simp
  then have "take 1 (ranking xs) = [hd (ranking xs)]"
    by (cases "ranking xs") auto
  also have "hd (ranking xs) = argmax_token xs"
    unfolding ranking_def argmax_token_def m by (rule hd_ranking_upto)
  finally show ?thesis .
qed

lemma argmax_token_less:
  assumes "xs \<noteq> []"
  shows "argmax_token xs < length xs"
proof -
  have "argmax_token xs \<in> set (take 1 (ranking xs))"
    using take_one_ranking[OF assms] by simp
  then have "argmax_token xs \<in> set (ranking xs)" by (rule in_set_takeD)
  then show ?thesis by simp
qed

lemma tensor2_single [simp]: "tensor2 (Suc 0) (Suc 0) f = [[f 0 0]]"
  by (simp add: tensor2_def)

lemma tensor3_single [simp]: "tensor3 (Suc 0) (Suc 0) V f = [[map (f 0 0) [0..<V]]]"
  by (simp add: tensor3_def)

lemma reshape_probs_single:
  assumes "length rows = 1" "length (rows ! 0) = V"
  shows "reshape_probs 1 1 V rows = Inr [[rows ! 0]]"
proof -
  obtain row where rows: "rows = [row]" using assms(1) by (cases rows) auto
  have "map ((!) row) [0..<V] = row" using assms(2) rows map_nth[of row] by simp
  then show ?thesis using assms rows by (simp add: reshape_probs_def)
qed

lemma select_single:
  assumes "length row = V" "0 < V" "length scores = V"
    and "\<And>a b. a < V \<Longrightarrow> b < V \<Longrightarrow> (scores ! a < scores ! b) = (row ! a < row ! b)"
  shows "\<exists>sc lp. select [scores] V c 1 V =
           Inr \<lparr>best_scores = [[sc]], best_idx = [[argmax_token row]], sel_log_probs = [[lp]],
                best_beams = [[0]], tokens = [[argmax_token row]]\<rparr>"
proof -
  have ne: "row \<noteq> []" "scores \<noteq> []" using assms(1,2,3) by auto
  have "ranking scores = ranking row"
    using assms by (intro ranking_cong) auto
  then have t: "take (Suc 0) (ranking scores) = [argmax_token row]"
    using take_one_ranking[OF ne(1)] by simp
  have lt: "argmax_token row < V" using argmax_token_less[OF ne(1)] assms(1) by simp
  show ?thesis
    using assms(2) lt by (simp add: select_def top_k_def t gather_k_def)
qed

lemma search_step_single:
  assumes "step self [[path]] e = ((V, rows), e1)"
    and "length rows = 1" "length (rows ! 0) = V" "0 < V"
    and "length_penalty self = no_length_penalty"
  shows "\<exists>lp' sc. search_step self 1 1 i \<lparr>paths = [[path]], log_probs = [[lp]], lengths = [[0]], extra = e\<rparr> =
           Inr (\<lparr>paths = [[path @ [argmax_token (rows ! 0)]]], log_probs = [[lp']],
                 lengths = [[if argmax_token (rows ! 0) = EOS then int i + 1 else 0]],
                 extra = update self [0] e1\<rparr>, [[sc]])"
proof -
  let ?row = "rows ! 0" and ?t = "argmax_token (rows ! 0)"
  have r: "reshape_probs 1 1 V rows = Inr [[?row]]"
    using reshape_probs_single[OF assms(2,3)] .
  obtain c scores where sco: "score_candidates (length_penalty self) 1 1 V i [[lp]] [[0]] [[?row]]
      = Inr (c, [scores], V)" and len: "length scores = V"
    and ord: "\<And>a b. a < V \<Longrightarrow> b < V \<Longrightarrow> (scores ! a < scores ! b) = (?row ! a < ?row ! b)"
  proof (cases "0 < i")
    case True
    show ?thesis
    proof (rule that)
      show "score_candidates (length_penalty self) 1 1 V i [[lp]] [[0]] [[?row]]
        = Inr (add_log_probs 1 1 V [[lp]] (mask_finished 1 1 V [[0]] [[?row]]),
               [map (\<lambda>v. lp + ?row ! v) [0..<V]], V)"
        using True assms(5)
        by (simp add: score_candidates_def Let_def penalized_def add_log_probs_def mask_finished_def
            valid_lengths_def no_length_penalty_def)
      show "length (map (\<lambda>v. lp + ?row ! v) [0..<V]) = V" by simp
      show "(map (\<lambda>v. lp + ?row ! v) [0..<V] ! a < map (\<lambda>v. lp + ?row ! v) [0..<V] ! b)
          = (?row ! a < ?row ! b)" if "a < V" "b < V" for a b
        using that by simp
    qed
  next
    case False
    show ?thesis
    proof (rule that)
      show "score_candidates (length_penalty self) 1 1 V i [[lp]] [[0]] [[?row]]
        = Inr ([[?row]], [?row], V)"
        using False by (simp add: score_candidates_def first_beam_scores_def)
      show "length ?row = V" using assms(3) .
      show "(?row ! a < ?row ! b) = (?row ! a < ?row ! b)" for a b ..
    qed
  qed
  obtain sc lp' where sel: "select [scores] V c 1 V =
           Inr \<lparr>best_scores = [[sc]], best_idx = [[?t]], sel_log_probs = [[lp']],
                best_beams = [[0]], tokens = [[?t]]\<rparr>"
    using select_single[OF assms(3,4) len ord] by blast
  have "search_step self 1 1 i \<lparr>paths = [[path]], log_probs = [[lp]], lengths = [[0]], extra = e\<rparr> =
           Inr (\<lparr>paths = [[path @ [?t]]], log_probs = [[lp']],
                 lengths = [[if ?t = EOS then int i + 1 else 0]],
                 extra = update self [0] e1\<rparr>, [[sc]])"
    using assms(1) r sco sel
    by (simp add: search_step_def reorder_def Let_def gather_paths_def gather_lengths_def
        flat_beams_def update_lengths_def masked_fill_if)
  then show ?thesis by blast
qed

lemma loop_break_single [simp]: "loop_break [[l]] 1 \<longleftrightarrow> l \<noteq> 0"
  by (simp add: loop_break_def)

lemma search_loop_greedy:
  assumes ok: "\<forall>ps e. single_row_ok (step self ps e)"
    and pen: "length_penalty self = no_length_penalty" and one: "beam self = 1"
  shows "(\<forall>p len. greedy_loop self i n path e = Ended p len \<longrightarrow>
            (\<exists>s' sc. search_loop self 1 1 i n \<lparr>paths = [[path]], log_probs = [[lp]], lengths = [[0]], extra = e\<rparr>
                        = Inr (Broke s' sc) \<and> paths s' = [[p]] \<and> lengths s' = [[len]])) \<and>
         (\<forall>p e'. greedy_loop self i n path e = Running p e' \<longrightarrow>
            (\<exists>lp'. search_loop self 1 1 i n \<lparr>paths = [[path]], log_probs = [[lp]], lengths = [[0]], extra = e\<rparr>
                        = Inr (Exhausted \<lparr>paths = [[p]], log_probs = [[lp']], lengths = [[0]], extra = e'\<rparr>)))"
proof (induction n arbitrary: i path e lp)
  case 0
  show ?case by simp
next
  case (Suc n)
  obtain V rows e1 where st: "step self [[path]] e = ((V, rows), e1)"
    by (metis surj_pair)
  have "single_row_ok (step self [[path]] e)" using ok by blast
  then have sh: "length rows = 1" "length (rows ! 0) = V" "0 < V"
    using st by (auto simp: single_row_ok_def)
  let ?t = "argmax_token (rows ! 0)"
  obtain lp' sc where step1:
    "search_step self 1 1 i \<lparr>paths = [[path]], log_probs = [[lp]], lengths = [[0]], extra = e\<rparr> =
       Inr (\<lparr>paths = [[path @ [?t]]], log_probs = [[lp']],
             lengths = [[if ?t = EOS then int i + 1 else 0]],
             extra = update self [0] e1\<rparr>, [[sc]])"
    using search_step_single[OF st sh pen] by blast
  show ?case
  proof (cases "?t = EOS")
    case True
    then show ?thesis using st step1 one by (simp add: Let_def)
  next
    case False
    then show ?thesis
      using st step1 one Suc.IH[of "Suc i" "path @ [?t]" "update self [0] e1" lp']
      by (simp add: Let_def)
  qed
qed

lemma finalize_single:
  assumes "single_row_ok (step self [[p]] e)"
  shows "\<exists>s' sc. finalize self 1 1 mxlen \<lparr>paths = [[p]], log_probs = [[lp]], lengths = [[0]], extra = e\<rparr>
            = Inr (s', sc) \<and> paths s' = [[p @ [EOS]]] \<and> lengths s' = [[mxlen]]"
proof -
  obtain V rows e1 where st: "step self [[p]] e = ((V, rows), e1)"
    by (metis surj_pair)
  then have sh: "length rows = 1" "length (rows ! 0) = V" "EOS < V"
    using assms by (auto simp: single_row_ok_def)
  have r: "reshape_probs 1 1 V rows = Inr [[rows ! 0]]"
    using reshape_probs_single[OF sh(1,2)] .
  show ?thesis
    using st r sh(3) by (simp add: finalize_def Let_def update_lengths_def)
qed

section \<open>The claims\<close>

text \<open>
  C1 (loop exit), the code at a batch of two rows with one beam. The number of non-zero
  lengths of the whole \<open>[B, K]\<close> tensor is compared with \<open>K\<close>, not with \<open>B * K\<close>.
  With \<open>two_rows\<close> row 0 ends at the first step and row 1 does not: the loop is left,
  and the search returns row 1 unfinished, with length 0. With \<open>both_end\<close> both rows
  end at the first step: the loop is not left, and the search runs on until the forced
  finalization.
\<close>

theorem loop_break_compares_with_K:
  "call two_rows [(), ()] (Some 5) = Inr ([[[EOS]], [[3]]], [[1], [0]], [[0], [0]]) \<and>
   loop_break [[1], [0]] (beam two_rows) \<and>
   \<not> list_all (\<lambda>l. l \<noteq> 0) (concat [[1], [0::int]]) \<and>
   call both_end [(), ()] (Some 3) = Inr ([[[EOS, EOS, EOS]], [[EOS, EOS, EOS]]], [[1], [1]], [[0], [0]]) \<and>
   \<not> loop_break [[1], [1]] (beam both_end) \<and>
   list_all (\<lambda>l. l \<noteq> 0) (concat [[1], [1::int]])"
  by code_simp

text \<open>
  For a batch of one row the exit test is exact: the loop is left exactly when every
  length of the row is non-zero.
\<close>

theorem loop_break_single_row:
  assumes "well_shaped 1 K ls"
  shows "loop_break ls (int K) \<longleftrightarrow> list_all (\<lambda>l. l \<noteq> 0) (concat ls)"
proof -
  from assms obtain row where ls: "ls = [row]" and len: "length row = K"
    by (cases ls) (auto simp: well_shaped_def)
  show ?thesis
    using count_nonzero_eq[of "\<lambda>l. l \<noteq> 0" row] by (simp add: loop_break_def ls len)
qed

theorem loop_break_single_row_witness:
  "well_shaped 1 3 [[1, 2, 1 :: int]] \<and> loop_break [[1, 2, 1]] (int 3) \<and>
   list_all (\<lambda>l. l \<noteq> 0) (concat [[1, 2, 1 :: int]])"
proof -
  have w: "well_shaped 1 3 [[1, 2, 1 :: int]]" by code_simp
  have a: "list_all (\<lambda>l. l \<noteq> 0) (concat [[1, 2, 1 :: int]])" by code_simp
  from loop_break_single_row[OF w] w a show ?thesis by simp
qed

text \<open>
  C2 (finished-beam masking), as the code behaves, for finite log-probabilities. The two
  \<^verbatim>\<open>masked_fill\<close> calls of lines 2848 and 2849 turn a finite entry of a finished beam
  into 0 for \<open>EOS\<close> and into \<open>-10\<^sup>8\<close> for every other token, in the arithmetic
  of \<open>f32\<close> as in the reals. At an iteration \<open>i \<ge> 1\<close> that succeeds, every beam whose
  length is not zero therefore gets the step log-probability 0 for \<open>EOS\<close> and
  \<open>-10\<^sup>8\<close> for every other token. Slot \<open>j\<close> of the new state extends the path of
  the selected beam by the selected token; when that beam was finished, its running
  log-probability is unchanged if the token is \<open>EOS\<close>, and lowered by \<open>10\<^sup>8\<close> if
  it is another token. Such a token is penalized, not excluded. An entry that is not
  finite is left out: the counterexample below shows what the mask makes of \<open>-\<infinity>\<close>.
\<close>

theorem finished_beam_masking:
  assumes "search_step self bsz K i s = Inr (s', sc)" and "0 < i" and "b < bsz" and "j < K"
    and "well_shaped bsz K (paths s)"
  shows "(\<forall>t tok. masked_fill (masked_fill (Fin t) True (Fin (- 100000000))) (tok = EOS) (Fin 0)
                    = Fin (if tok = EOS then 0 else - 100000000)) \<and>
         (\<exists>V rows extra1 probs c fs w sel.
           step self (paths s) (extra s) = ((V, rows), extra1) \<and>
           reshape_probs bsz K V rows = Inr probs \<and>
           score_candidates (length_penalty self) bsz K V i (log_probs s) (lengths s) probs = Inr (c, fs, w) \<and>
           select fs w c K V = Inr sel \<and>
           (\<forall>k<K. \<forall>v<V. lengths s ! b ! k \<noteq> 0 \<longrightarrow>
              mask_finished bsz K V (lengths s) probs ! b ! k ! v = (if v = EOS then 0 else - 100000000)) \<and>
           best_beams sel ! b ! j < K \<and> tokens sel ! b ! j < V \<and>
           paths s' ! b ! j = paths s ! b ! (best_beams sel ! b ! j) @ [tokens sel ! b ! j] \<and>
           (lengths s ! b ! (best_beams sel ! b ! j) \<noteq> 0 \<longrightarrow>
              log_probs s' ! b ! j =
                log_probs s ! b ! (best_beams sel ! b ! j) +
                (if tokens sel ! b ! j = EOS then 0 else - 100000000)))"
proof -
  from assms(1) obtain V rows extra1 probs c fs w sel where
    st: "step self (paths s) (extra s) = ((V, rows), extra1)"
    and r: "reshape_probs bsz K V rows = Inr probs"
    and sco: "score_candidates (length_penalty self) bsz K V i (log_probs s) (lengths s) probs = Inr (c, fs, w)"
    and sl: "select fs w c K V = Inr sel"
    and s': "s' = reorder (update self) bsz K i s extra1 sel"
    by (auto simp: search_step_Inr)
  let ?k = "best_beams sel ! b ! j" and ?t = "tokens sel ! b ! j"
  note rng = selected_in_range[OF r sco sl assms(3,4)]
  have k: "?k < K" using rng(2) .
  have w: "w = K * V" using score_candidates_shape(3)[OF r sco] assms(2) by simp
  have v: "0 < V" using rng(1) w by (cases V) auto
  have t: "?t < V" using rng(4) v by simp
  have a: "\<forall>k<K. \<forall>v<V. lengths s ! b ! k \<noteq> 0 \<longrightarrow>
              mask_finished bsz K V (lengths s) probs ! b ! k ! v = (if v = EOS then 0 else - 100000000)"
    using assms(3) by (simp add: mask_finished_nth)
  have p: "paths s' ! b ! j = paths s ! b ! ?k @ [?t]"
    using gather_paths_nth[OF assms(5,3,4) k] s' by (simp add: reorder_def Let_def)
  have "log_probs s' ! b ! j = log_probs s ! b ! ?k + mask_finished bsz K V (lengths s) probs ! b ! ?k ! ?t"
    using later_step_log_probs(1)[OF r sco sl assms(3,4,2)] s' by simp
  then have l: "lengths s ! b ! ?k \<noteq> 0 \<longrightarrow>
      log_probs s' ! b ! j = log_probs s ! b ! ?k + (if ?t = EOS then 0 else - 100000000)"
    using assms(3) k t by (simp add: mask_finished_nth)
  have f: "\<forall>t tok. masked_fill (masked_fill (Fin t) True (Fin (- 100000000))) (tok = EOS) (Fin 0)
                    = Fin (if tok = EOS then 0 else - 100000000)"
    by (simp add: masked_fill_f32)
  from st r sco sl a k t p l have "\<exists>V rows extra1 probs c fs w sel.
           step self (paths s) (extra s) = ((V, rows), extra1) \<and>
           reshape_probs bsz K V rows = Inr probs \<and>
           score_candidates (length_penalty self) bsz K V i (log_probs s) (lengths s) probs = Inr (c, fs, w) \<and>
           select fs w c K V = Inr sel \<and>
           (\<forall>k<K. \<forall>v<V. lengths s ! b ! k \<noteq> 0 \<longrightarrow>
              mask_finished bsz K V (lengths s) probs ! b ! k ! v = (if v = EOS then 0 else - 100000000)) \<and>
           best_beams sel ! b ! j < K \<and> tokens sel ! b ! j < V \<and>
           paths s' ! b ! j = paths s ! b ! (best_beams sel ! b ! j) @ [tokens sel ! b ! j] \<and>
           (lengths s ! b ! (best_beams sel ! b ! j) \<noteq> 0 \<longrightarrow>
              log_probs s' ! b ! j =
                log_probs s ! b ! (best_beams sel ! b ! j) +
                (if tokens sel ! b ! j = EOS then 0 else - 100000000))"
    by blast
  with f show ?thesis by (rule conjI)
qed

theorem finished_beam_masking_witness:
  "(\<forall>t tok. masked_fill (masked_fill (Fin t) True (Fin (- 100000000))) (tok = EOS) (Fin 0)
             = Fin (if tok = EOS then 0 else - 100000000)) \<and>
   (\<exists>V rows extra1 probs c fs w sel.
           step demo (paths demo_beams) (extra demo_beams) = ((V, rows), extra1) \<and>
           reshape_probs 1 3 V rows = Inr probs \<and>
           score_candidates (length_penalty demo) 1 3 V 1 (log_probs demo_beams) (lengths demo_beams) probs = Inr (c, fs, w) \<and>
           select fs w c 3 V = Inr sel \<and>
           (\<forall>k<3. \<forall>v<V. lengths demo_beams ! 0 ! k \<noteq> 0 \<longrightarrow>
              mask_finished 1 3 V (lengths demo_beams) probs ! 0 ! k ! v = (if v = EOS then 0 else - 100000000)) \<and>
           best_beams sel ! 0 ! 1 < 3 \<and> tokens sel ! 0 ! 1 < V \<and>
           paths demo_beams_next ! 0 ! 1 = paths demo_beams ! 0 ! (best_beams sel ! 0 ! 1) @ [tokens sel ! 0 ! 1] \<and>
           (lengths demo_beams ! 0 ! (best_beams sel ! 0 ! 1) \<noteq> 0 \<longrightarrow>
              log_probs demo_beams_next ! 0 ! 1 =
                log_probs demo_beams ! 0 ! (best_beams sel ! 0 ! 1) +
                (if tokens sel ! 0 ! 1 = EOS then 0 else - 100000000)))"
proof -
  have st: "search_step demo 1 3 1 demo_beams = Inr (demo_beams_next, [[0, - 5, - 100000005]])"
    by code_simp
  have h: "(0::nat) < 1" "(0::nat) < 1" "(1::nat) < 3" by simp_all
  have ws: "well_shaped 1 3 (paths demo_beams)" by code_simp
  show ?thesis by (rule finished_beam_masking[OF st h ws])
qed

text \<open>
  Counterexample to C2 as stated. In its last part: with three beams, the first step of \<open>demo\<close>
  leaves beam 1 finished (path \<open>[GO, EOS]\<close>, length 1); at the second step the third
  slot is filled from that finished beam with token 0, which is not \<open>EOS\<close>, because
  every candidate of the unfinished beam 2 is lower than \<open>-5 - 10\<^sup>8\<close>. The search
  returns the sequence \<open>[EOS, 0, EOS]\<close> for that slot. In its first part: an entry
  \<open>-\<infinity>\<close> of a finished beam, as the oracle of the spec's scenario A gives, is turned
  into NaN by line 2848 and stays NaN, for \<open>EOS\<close> as for every other token.
\<close>

theorem finished_beam_masking_counterexample:
  "search_step demo 1 3 0 (initial_beams 1 3 ()) = Inr (demo_beams, [[0, - 5, - 1000000000]]) \<and>
   lengths demo_beams ! 0 ! 1 = 1 \<and>
   paths demo_beams ! 0 ! 1 = [GO, EOS] \<and>
   search_step demo 1 3 1 demo_beams = Inr (demo_beams_next, [[0, - 5, - 100000005]]) \<and>
   paths demo_beams_next ! 0 ! 2 = [GO, EOS, 0] \<and>
   lengths demo_beams_next ! 0 ! 2 = 1 \<and>
   0 \<noteq> EOS \<and>
   call demo [()] (Some 3) =
     Inr ([[[3, 3, EOS], [EOS, EOS, EOS], [EOS, 0, EOS]]], [[3, 1, 1]], [[- 1000000000, - 5, - 100000005]]) \<and>
   masked_fill NInf True (Fin (- 100000000)) = NaN \<and>
   masked_fill (masked_fill NInf True (Fin (- 100000000))) True (Fin 0) = NaN \<and>
   masked_fill (masked_fill NInf True (Fin (- 100000000))) False (Fin 0) = NaN"
  by (intro conjI; code_simp)

text \<open>
  C3 (forced finalization), the code at a finished beam whose log-probability of \<open>EOS\<close>
  is \<open>-\<infinity>\<close>. With one row, two beams, \<open>mxlen = 2\<close> and the oracle of scenario A at
  the first step, the loop runs out with beam 0 unfinished (log-probability 0) and beam 1
  finished (log-probability -5); the oracle then puts all mass on token 3, so that the
  \<open>EOS\<close> column of the finalization is \<open>-\<infinity>\<close> for both beams. Lines 2908 and 2909
  give beam 0 the log-probability \<open>-\<infinity>\<close> and the finished beam 1 NaN: its mask is
  \<open>-\<infinity> * 0 + 0 * 1\<close>. With a finite entry the mask is 0 and the log-probability of
  the finished beam stays -5, as the comment at line 2907 and the claim have it.
\<close>

theorem finalization_mask_not_a_number:
  "Fin 0 + masked_fill NInf False 0 = NInf \<and>
   masked_fill NInf True 0 = NaN \<and>
   Fin (- 5) + masked_fill NInf True 0 = NaN \<and>
   masked_fill (Fin (- 7)) True 0 = Fin 0 \<and>
   Fin (- 5) + masked_fill (Fin (- 7)) True 0 = Fin (- 5)"
  by (simp add: masked_fill_def zero_f32_def one_f32_def minus_f32_def)

text \<open>
  For finite log-probabilities and \<open>mxlen\<close> in the range of \<^verbatim>\<open>int32\<close> the finalization
  is the one described. When the loop of a call runs out without \<^verbatim>\<open>break\<close>, leaving
  the state \<open>s\<close>, and the oracle's answer on \<open>s\<close> reshapes to \<open>[bsz, K, V]\<close> with
  \<open>EOS < V\<close>, the call returns the finalized state: for every beam, the running
  log-probability grows by the oracle's log-probability of \<open>EOS\<close> if the length is
  still zero and by 0 otherwise, the returned path is the path with \<open>EOS\<close> appended
  (and \<open>GO\<close> removed), a zero length becomes \<open>mxlen\<close> and any other length is kept,
  and the score is the new log-probability divided by the penalty of the new lengths,
  where that penalty is not zero.
\<close>

theorem forced_finalization_finite:
  assumes "0 \<le> beam self" and "K = nat (beam self)" and "bsz = length encoder_output"
    and "search_loop self bsz K 0 (nat (mxlen - 1)) (initial_beams bsz K (init self encoder_output))
           = Inr (Exhausted s)"
    and "step self (paths s) (extra s) = ((V, rows), extra1)"
    and "reshape_probs bsz K V rows = Inr probs" and "EOS < V"
    and "b < bsz" and "k < K"
    and "- 2147483648 \<le> mxlen" and "mxlen \<le> 2147483647"
  shows "\<exists>s' ps ls sc.
           finalize self bsz K mxlen s = Inr (s', sc) \<and>
           call self encoder_output (Some mxlen) = Inr (ps, ls, sc) \<and>
           log_probs s' ! b ! k =
             log_probs s ! b ! k + (if lengths s ! b ! k \<noteq> 0 then 0 else probs ! b ! k ! EOS) \<and>
           ps ! b ! k = tl (paths s ! b ! k @ [EOS]) \<and>
           ls ! b ! k = (if lengths s ! b ! k = 0 then mxlen else lengths s ! b ! k) \<and>
           (length_penalty self ls ! b ! k \<noteq> 0 \<longrightarrow>
              sc ! b ! k = log_probs s' ! b ! k / length_penalty self ls ! b ! k)"
proof -
  have wf: "wf_beams bsz K s"
    using wf_search_loop[OF wf_initial_beams assms(4)] by simp
  obtain s' sc where fin: "finalize self bsz K mxlen s = Inr (s', sc)"
    using assms(5,6,7) by (simp add: finalize_def Let_def)
  have c: "call self encoder_output (Some mxlen) = Inr (strip_go s' sc)"
    using assms(1,2,3,4) fin by (simp add: call_def Let_def)
  from fin assms(5,6) have
    lp: "log_probs s' = tensor2 bsz K (\<lambda>b k. log_probs s ! b ! k +
           tensor2 bsz K (\<lambda>b k. masked_fill (probs ! b ! k ! EOS) (lengths s ! b ! k \<noteq> 0) 0) ! b ! k)"
    and ps: "paths s' = tensor2 bsz K (\<lambda>b k. paths s ! b ! k @ [EOS])"
    and sc: "sc = tensor2 bsz K (\<lambda>b k. log_probs s' ! b ! k / length_penalty self (lengths s') ! b ! k)"
    by (auto simp: finalize_Inr)
  have 1: "log_probs s' ! b ! k =
             log_probs s ! b ! k + (if lengths s ! b ! k \<noteq> 0 then 0 else probs ! b ! k ! EOS)"
    using lp assms(8,9) by (simp add: masked_fill_if)
  have 2: "map (map tl) (paths s') ! b ! k = tl (paths s ! b ! k @ [EOS])"
    using ps assms(8,9) by simp
  have 3: "lengths s' ! b ! k = (if lengths s ! b ! k = 0 then mxlen else lengths s ! b ! k)"
    using finalize_lengths_nth[OF _ assms(8,9) fin] wf by (simp add: wf_beams_def)
  have 4: "sc ! b ! k = log_probs s' ! b ! k / length_penalty self (lengths s') ! b ! k"
    using sc assms(8,9) by simp
  from fin c 1 2 3 4 show ?thesis by (simp add: strip_go_def)
qed

theorem forced_finalization_finite_witness:
  "\<exists>s' ps ls sc.
           finalize demo 1 3 3 demo_beams_next = Inr (s', sc) \<and>
           call demo [()] (Some 3) = Inr (ps, ls, sc) \<and>
           log_probs s' ! 0 ! 0 =
             log_probs demo_beams_next ! 0 ! 0 +
             (if lengths demo_beams_next ! 0 ! 0 \<noteq> 0 then 0 else [demo_rows_late 3] ! 0 ! 0 ! EOS) \<and>
           ps ! 0 ! 0 = tl (paths demo_beams_next ! 0 ! 0 @ [EOS]) \<and>
           ls ! 0 ! 0 = (if lengths demo_beams_next ! 0 ! 0 = 0 then 3 else lengths demo_beams_next ! 0 ! 0) \<and>
           (length_penalty demo ls ! 0 ! 0 \<noteq> 0 \<longrightarrow>
              sc ! 0 ! 0 = log_probs s' ! 0 ! 0 / length_penalty demo ls ! 0 ! 0)"
proof -
  have a: "0 \<le> beam demo" "3 = nat (beam demo)" "1 = length [()]" by code_simp+
  have l: "search_loop demo 1 3 0 (nat (3 - 1)) (initial_beams 1 3 (init demo [()]))
      = Inr (Exhausted demo_beams_next)" by code_simp
  have s: "step demo (paths demo_beams_next) (extra demo_beams_next) = ((4, demo_rows_late 3), ())"
    by code_simp
  have r: "reshape_probs 1 3 4 (demo_rows_late 3) = Inr [demo_rows_late 3]" by code_simp
  have e: "EOS < 4" by code_simp
  have h: "(0::nat) < 1" "(0::nat) < 3" by simp_all
  have m: "- 2147483648 \<le> (3::int)" "(3::int) \<le> 2147483647" by simp_all
  show ?thesis by (rule forced_finalization_finite[OF a l s r e h m])
qed

text \<open>
  C4 (first-step diversity). At the first iteration with \<open>1 \<le> K \<le> V\<close>, two oracle
  outputs that agree on beam 0 of every row give the same scores and the same selection,
  whatever the other beams, the running log-probabilities, the lengths and the penalty are.
  The selected tokens of a row are \<open>K\<close> pairwise distinct tokens, every one of them
  taken from beam 0, with beam 0's log-probability of the token as score and as running
  log-probability.
\<close>

theorem first_step_ranks_beam_zero_only:
  assumes "reshape_probs bsz K V rows = Inr probs" and "reshape_probs bsz K V rows' = Inr probs'"
    and "\<forall>b<bsz. rows' ! (b * K) = rows ! (b * K)"
    and "0 < K" and "K \<le> V"
  shows "\<exists>fs sel.
           score_candidates pen bsz K V 0 lp ls probs = Inr (probs, fs, V) \<and>
           score_candidates pen' bsz K V 0 lp' ls' probs' = Inr (probs', fs, V) \<and>
           select fs V probs K V = Inr sel \<and>
           select fs V probs' K V = Inr sel \<and>
           (\<forall>b<bsz. length (tokens sel ! b) = K \<and> distinct (tokens sel ! b) \<and>
              (\<forall>j<K. best_beams sel ! b ! j = 0 \<and> tokens sel ! b ! j < V \<and>
                 tokens sel ! b ! j = best_idx sel ! b ! j \<and>
                 best_scores sel ! b ! j = rows ! (b * K) ! (tokens sel ! b ! j) \<and>
                 sel_log_probs sel ! b ! j = rows ! (b * K) ! (tokens sel ! b ! j)))"
proof -
  let ?fs = "map (\<lambda>row. row ! 0) probs"
  have fs: "?fs = map (\<lambda>b. rows ! (b * K)) [0..<bsz]"
    using first_scores_rows[OF assms(1,4)] .
  have "map (\<lambda>row. row ! 0) probs' = map (\<lambda>b. rows' ! (b * K)) [0..<bsz]"
    using first_scores_rows[OF assms(2,4)] .
  also have "\<dots> = ?fs" using assms(3) fs by simp
  finally have fs': "map (\<lambda>row. row ! 0) probs' = ?fs" .
  have sc: "score_candidates pen bsz K V 0 lp ls probs = Inr (probs, ?fs, V)"
    using assms(4) by (rule score_candidates_first)
  have sc': "score_candidates pen' bsz K V 0 lp' ls' probs' = Inr (probs', ?fs, V)"
    using score_candidates_first[OF assms(4), of pen' bsz V lp' ls' probs'] fs' by simp
  obtain sel where sel: "select ?fs V probs K V = Inr sel"
    using assms(5) by (simp add: select_Inr)
  obtain sel' where sel': "select ?fs V probs' K V = Inr sel'"
    using assms(5) by (simp add: select_Inr)
  have lfs: "length ?fs = bsz" using fs by simp
  have idx: "best_idx sel' = best_idx sel" "best_scores sel' = best_scores sel"
    "best_beams sel' = best_beams sel" "tokens sel' = tokens sel"
    using sel sel' by (simp_all add: select_Inr)
  have in_block: "best_idx sel ! b ! j < V" if "b < bsz" "j < K" for b j
    using selected_in_range(1)[OF assms(1) sc sel that] .
  have g: "sel_log_probs sel = tensor2 bsz K (\<lambda>r j. map concat probs ! r ! (best_idx sel ! r ! j))"
    using sel lfs by (simp add: select_Inr gather_k_def)
  have g': "sel_log_probs sel' = tensor2 bsz K (\<lambda>r j. map concat probs' ! r ! (best_idx sel ! r ! j))"
    using sel' sel lfs by (simp add: select_Inr gather_k_def)
  have "sel_log_probs sel' = sel_log_probs sel"
    unfolding g g'
  proof (rule tensor2_cong)
    fix b k assume bk: "b < bsz" "k < K"
    have "map concat probs' ! b ! (best_idx sel ! b ! k) = rows' ! (b * K) ! (best_idx sel ! b ! k)"
      using first_block_of_concat[OF assms(2,4) bk(1) in_block[OF bk]] .
    moreover have "map concat probs ! b ! (best_idx sel ! b ! k) = rows ! (b * K) ! (best_idx sel ! b ! k)"
      using first_block_of_concat[OF assms(1,4) bk(1) in_block[OF bk]] .
    ultimately show "map concat probs' ! b ! (best_idx sel ! b ! k) =
        map concat probs ! b ! (best_idx sel ! b ! k)"
      using assms(3) bk(1) by simp
  qed
  with idx have same: "sel' = sel" by simp
  have props: "length (tokens sel ! b) = K \<and> distinct (tokens sel ! b) \<and>
              (\<forall>j<K. best_beams sel ! b ! j = 0 \<and> tokens sel ! b ! j < V \<and>
                 tokens sel ! b ! j = best_idx sel ! b ! j \<and>
                 best_scores sel ! b ! j = rows ! (b * K) ! (tokens sel ! b ! j) \<and>
                 sel_log_probs sel ! b ! j = rows ! (b * K) ! (tokens sel ! b ! j))"
    if b: "b < bsz" for b
  proof -
    have l: "length (best_idx sel ! b) = K"
      using selected_in_range(5)[OF assms(1) sc sel b assms(4)] .
    have row: "best_idx sel ! b = take K (ranking (?fs ! b))"
      using sel b lfs by (simp add: select_Inr)
    have el: "tokens sel ! b ! j = best_idx sel ! b ! j" if j: "j < K" for j
      using selected_in_range(4)[OF assms(1) sc sel b j] in_block[OF b j] by simp
    have "length (tokens sel ! b) = K"
      using sel b lfs l by (simp add: select_Inr)
    then have tq: "tokens sel ! b = best_idx sel ! b"
      using l el by (simp add: list_eq_iff_nth_eq)
    have d: "distinct (tokens sel ! b)" using tq row by simp
    have "best_beams sel ! b ! j = 0 \<and> tokens sel ! b ! j < V \<and>
          tokens sel ! b ! j = best_idx sel ! b ! j \<and>
          best_scores sel ! b ! j = rows ! (b * K) ! (tokens sel ! b ! j) \<and>
          sel_log_probs sel ! b ! j = rows ! (b * K) ! (tokens sel ! b ! j)" if j: "j < K" for j
    proof -
      have a: "best_beams sel ! b ! j = 0"
        using selected_in_range(3)[OF assms(1) sc sel b j] in_block[OF b j] by simp
      have "best_scores sel ! b = map ((!) (?fs ! b)) (best_idx sel ! b)"
        using sel b lfs by (simp add: select_Inr)
      then have "best_scores sel ! b ! j = ?fs ! b ! (best_idx sel ! b ! j)"
        using l j by simp
      also have "?fs ! b = rows ! (b * K)" using fs b by simp
      finally have c: "best_scores sel ! b ! j = rows ! (b * K) ! (tokens sel ! b ! j)"
        using el[OF j] by simp
      have "sel_log_probs sel ! b ! j = map concat probs ! b ! (best_idx sel ! b ! j)"
        using g b j by simp
      also have "\<dots> = rows ! (b * K) ! (best_idx sel ! b ! j)"
        using first_block_of_concat[OF assms(1,4) b in_block[OF b j]] .
      finally have e: "sel_log_probs sel ! b ! j = rows ! (b * K) ! (tokens sel ! b ! j)"
        using el[OF j] by simp
      from a c e el[OF j] in_block[OF b j] show ?thesis by simp
    qed
    with \<open>length (tokens sel ! b) = K\<close> d show ?thesis by blast
  qed
  from sc sc' sel sel' same props show ?thesis by blast
qed

theorem first_step_ranks_beam_zero_only_witness:
  "\<exists>fs sel.
      score_candidates no_length_penalty 1 3 4 0 [[0, 0, 0]] [[0, 0, 0]] [demo_rows 3] = Inr ([demo_rows 3], fs, 4) \<and>
      score_candidates no_length_penalty 1 3 4 0 [[0, 0, 0]] [[0, 0, 0]]
          [other_rows]
        = Inr ([other_rows], fs, 4) \<and>
      select fs 4 [demo_rows 3] 3 4 = Inr sel \<and>
      select fs 4 [other_rows] 3 4 = Inr sel \<and>
      (\<forall>b<1. length (tokens sel ! b) = 3 \<and> distinct (tokens sel ! b) \<and>
         (\<forall>j<3. best_beams sel ! b ! j = 0 \<and> tokens sel ! b ! j < 4 \<and>
            tokens sel ! b ! j = best_idx sel ! b ! j \<and>
            best_scores sel ! b ! j = demo_rows 3 ! (b * 3) ! (tokens sel ! b ! j) \<and>
            sel_log_probs sel ! b ! j = demo_rows 3 ! (b * 3) ! (tokens sel ! b ! j)))"
proof -
  have a: "reshape_probs 1 3 4 (demo_rows 3) = Inr [demo_rows 3]" by code_simp
  have b: "reshape_probs 1 3 4 other_rows
      = Inr [other_rows]" by code_simp
  have "other_rows ! 0 = demo_rows 3 ! 0" by code_simp
  then have c: "\<forall>b<1. other_rows ! (b * 3) = demo_rows 3 ! (b * 3)" by simp
  have d: "(0::nat) < 3" "(3::nat) \<le> 4" by simp_all
  show ?thesis
    by (rule first_step_ranks_beam_zero_only[OF a b c d])
qed

text \<open>
  C5 (scenario A), as the code behaves: the first selection succeeds and the two beams
  get different tokens. The first slot takes token 3 (A) with score 0, the second
  slot takes token 2 (END) with score -5; both come from beam 0.
\<close>

theorem scenario_A_first_step:
  "first_selection 2 4 scenario_A =
     Inr \<lparr>best_scores = [[Some 0, Some (- 5)]], best_idx = [[3, 2]],
          sel_log_probs = [[Some 0, Some (- 5)]], best_beams = [[0, 0]], tokens = [[3, 2]]\<rparr>"
  by code_simp

text \<open>
  Counterexample to C5 as stated: the selected tokens are not A for both beams.
\<close>

theorem scenario_A_counterexample:
  "map_sum id tokens (first_selection 2 4 scenario_A) \<noteq> Inr [[3, 3]]"
  by code_simp



text \<open>
  C7 (frozen-length invariant). In a well-shaped state, a length entry that is not zero
  is left alone by every length update: by \<open>update_lengths\<close> itself whatever the mask
  and the fill value, by an iteration of the loop (slot \<open>j\<close> of the new state extends
  the path of some beam \<open>origin\<close> of its row and, when that beam's length is not
  zero, carries that very length), and by the forced finalization.
\<close>

theorem frozen_length_invariant:
  assumes "well_shaped bsz K (lengths s)" "well_shaped bsz K (paths s)" "b < bsz" "j < K"
  shows "(\<forall>eoses idx. well_shaped bsz K eoses \<longrightarrow> lengths s ! b ! j \<noteq> 0 \<longrightarrow>
            update_lengths (lengths s) eoses idx ! b ! j = lengths s ! b ! j) \<and>
         (\<forall>s' sc. search_step self bsz K i s = Inr (s', sc) \<longrightarrow>
            (\<exists>origin<K. \<exists>tok. paths s' ! b ! j = paths s ! b ! origin @ [tok] \<and>
               (lengths s ! b ! origin \<noteq> 0 \<longrightarrow> lengths s' ! b ! j = lengths s ! b ! origin))) \<and>
         (\<forall>s' sc. finalize self bsz K mxlen s = Inr (s', sc) \<longrightarrow> lengths s ! b ! j \<noteq> 0 \<longrightarrow>
            lengths s' ! b ! j = lengths s ! b ! j)"
proof (intro conjI allI impI)
  fix eoses :: "bool list list" and idx :: int
  assume "well_shaped bsz K eoses" "lengths s ! b ! j \<noteq> 0"
  then show "update_lengths (lengths s) eoses idx ! b ! j = lengths s ! b ! j"
    using assms by (simp add: update_lengths_nth well_shaped_def list_all_length)
next
  fix s' sc
  assume "search_step self bsz K i s = Inr (s', sc)"
  then show "\<exists>origin<K. \<exists>tok. paths s' ! b ! j = paths s ! b ! origin @ [tok] \<and>
               (lengths s ! b ! origin \<noteq> 0 \<longrightarrow> lengths s' ! b ! j = lengths s ! b ! origin)"
    using step_keeps_frozen[OF assms] by simp
next
  fix s' sc
  assume "finalize self bsz K mxlen s = Inr (s', sc)" "lengths s ! b ! j \<noteq> 0"
  then show "lengths s' ! b ! j = lengths s ! b ! j"
    using finalize_lengths_nth[OF assms(1,3,4)] by simp
qed

theorem frozen_length_invariant_witness:
  "well_shaped 1 3 (lengths demo_beams) \<and> well_shaped 1 3 (paths demo_beams) \<and>
   update_lengths (lengths demo_beams) [[True, True, True]] 2 ! 0 ! 1 = 1 \<and>
   (\<exists>s' sc. search_step demo 1 3 1 demo_beams = Inr (s', sc) \<and>
      (\<exists>origin<3. \<exists>tok. paths s' ! 0 ! 1 = paths demo_beams ! 0 ! origin @ [tok] \<and>
         (lengths demo_beams ! 0 ! origin \<noteq> 0 \<longrightarrow> lengths s' ! 0 ! 1 = lengths demo_beams ! 0 ! origin))) \<and>
   (\<exists>s' sc. finalize demo 1 3 3 demo_beams = Inr (s', sc) \<and> lengths s' ! 0 ! 1 = 1)"
proof -
  have h1: "well_shaped 1 3 (lengths demo_beams)" by code_simp
  have h2: "well_shaped 1 3 (paths demo_beams)" by code_simp
  have h3: "(0::nat) < 1" "(1::nat) < 3" by simp_all
  have e: "well_shaped 1 3 [[True, True, True]]" by code_simp
  have nz: "lengths demo_beams ! 0 ! 1 \<noteq> 0" by code_simp
  have v: "lengths demo_beams ! 0 ! 1 = 1" by code_simp
  have "\<not> isl (search_step demo 1 3 1 demo_beams)" by code_simp
  then obtain s1 sc1 where st: "search_step demo 1 3 1 demo_beams = Inr (s1, sc1)"
    by (cases "search_step demo 1 3 1 demo_beams") auto
  have "\<not> isl (finalize demo 1 3 3 demo_beams)" by code_simp
  then obtain s2 sc2 where fin: "finalize demo 1 3 3 demo_beams = Inr (s2, sc2)"
    by (cases "finalize demo 1 3 3 demo_beams") auto
  note t = frozen_length_invariant[OF h1 h2 h3, of demo 1 3]
  from t e nz v have "update_lengths (lengths demo_beams) [[True, True, True]] 2 ! 0 ! 1 = 1"
    by metis
  moreover from t st have "\<exists>origin<3. \<exists>tok. paths s1 ! 0 ! 1 = paths demo_beams ! 0 ! origin @ [tok] \<and>
         (lengths demo_beams ! 0 ! origin \<noteq> 0 \<longrightarrow> lengths s1 ! 0 ! 1 = lengths demo_beams ! 0 ! origin)"
    by blast
  moreover from t fin nz v have "lengths s2 ! 0 ! 1 = 1" by metis
  ultimately show ?thesis using h1 h2 st fin by blast
qed

text \<open>
  C8 (greedy equivalence), the code at a batch of two rows with one beam. Row 0 favours
  \<open>EOS\<close> and row 1 favours token 3. Greedy decoding of row 1 gives
  \<open>[3, 3, 3, 3, EOS]\<close> with length 5, and so does the search on row 1 alone. In the
  batch the search leaves the loop after the first step, when row 0 has ended (the exit
  test of line 2897), and returns \<open>[3]\<close> with length 0 for row 1.
\<close>

theorem greedy_differs_in_a_batch:
  "call favourite [2, 3] (Some 5) = Inr ([[[EOS]], [[3]]], [[1], [0]], [[0], [0]]) \<and>
   greedy_decode favourite [2] 5 = ([EOS], 1) \<and>
   greedy_decode favourite [3] 5 = ([3, 3, 3, 3, EOS], 5) \<and>
   call favourite [3] (Some 5) = Inr ([[[3, 3, 3, 3, EOS]]], [[5]], [[- 9]])"
  by code_simp

text \<open>
  For a batch of one row the search is greedy decoding. With one beam, the default penalty and an
  oracle whose every answer is one row of \<open>V > EOS\<close> entries, the call succeeds and
  returns the sequence and the length of greedy decoding.
\<close>

theorem greedy_equivalence_single_row:
  assumes "\<forall>ps e. single_row_ok (step self ps e)"
    and "length_penalty self = no_length_penalty" and "beam self = 1"
  shows "\<exists>sc. call self [h] (Some mxlen) =
           Inr ([[fst (greedy_decode self [h] mxlen)]], [[snd (greedy_decode self [h] mxlen)]], sc)"
proof -
  let ?e0 = "init self [h]"
  have s0: "initial_beams 1 1 ?e0 = \<lparr>paths = [[[GO]]], log_probs = [[0]], lengths = [[0]], extra = ?e0\<rparr>"
    by (simp add: initial_beams_def)
  note loop = search_loop_greedy[OF assms, of 0 "nat (mxlen - 1)" "[GO]" ?e0 0]
  show ?thesis
  proof (cases "greedy_loop self 0 (nat (mxlen - 1)) [GO] ?e0")
    case (Ended p len)
    then obtain s' sc where "search_loop self 1 1 0 (nat (mxlen - 1)) (initial_beams 1 1 ?e0)
        = Inr (Broke s' sc)" "paths s' = [[p]]" "lengths s' = [[len]]"
      using loop s0 by auto
    then show ?thesis
      using Ended assms(3) by (simp add: call_def Let_def strip_go_def greedy_decode_def)
  next
    case (Running p e')
    then obtain lp' where l: "search_loop self 1 1 0 (nat (mxlen - 1)) (initial_beams 1 1 ?e0)
        = Inr (Exhausted \<lparr>paths = [[p]], log_probs = [[lp']], lengths = [[0]], extra = e'\<rparr>)"
      using loop s0 by auto
    have "single_row_ok (step self [[p]] e')" using assms(1) by blast
    then obtain s' sc where "finalize self 1 1 mxlen \<lparr>paths = [[p]], log_probs = [[lp']], lengths = [[0]], extra = e'\<rparr>
            = Inr (s', sc)" "paths s' = [[p @ [EOS]]]" "lengths s' = [[mxlen]]"
      using finalize_single[of self p e' mxlen lp'] by blast
    then show ?thesis
      using Running l assms(3) by (simp add: call_def Let_def strip_go_def greedy_decode_def)
  qed
qed

theorem greedy_equivalence_single_row_witness:
  "\<exists>sc. call countdown [()] (Some 9) =
     Inr ([[fst (greedy_decode countdown [()] 9)]], [[snd (greedy_decode countdown [()] 9)]], sc)"
proof -
  have a: "\<forall>ps e. single_row_ok (step countdown ps e)"
    by (simp add: countdown_def BeamSearchBase_init_def countdown_step_def single_row_ok_def EOS_def)
  have b: "length_penalty countdown = no_length_penalty"
    by (simp add: countdown_def BeamSearchBase_init_def)
  have c: "beam countdown = 1"
    by (simp add: countdown_def BeamSearchBase_init_def)
  show ?thesis by (rule greedy_equivalence_single_row[OF a b c])
qed

text \<open>
  C9 (configuration errors), as the code behaves. \<^verbatim>\<open>__init__\<close> and \<^verbatim>\<open>__call__\<close> check
  neither \<open>K\<close> nor \<open>mxlen\<close>. A negative \<open>K\<close> fails at once, when the initial tensors
  are created. With \<open>mxlen < 1\<close>, in the range of \<^verbatim>\<open>int32\<close>, and \<open>K \<ge> 0\<close> nothing
  is reported: the loop body never runs, the oracle is asked once by the forced
  finalization and, its answer having the right shape, the call returns \<open>[EOS]\<close> for
  every beam, with length \<open>mxlen\<close> and, where the penalty of that length is not zero,
  the oracle's log-probability of \<open>EOS\<close> over the penalty as score.
\<close>

theorem configuration_not_validated:
  assumes "bsz = length encoder_output" and "K = nat (beam self)"
    and "s0 = initial_beams bsz K (init self encoder_output)"
  shows "(beam self < 0 \<longrightarrow> call self encoder_output mxlen_kw = Inl NegativeDimension) \<and>
         (0 \<le> beam self \<longrightarrow> mxlen < 1 \<longrightarrow> - 2147483648 \<le> mxlen \<longrightarrow>
          step self (paths s0) (extra s0) = ((V, rows), extra1) \<longrightarrow>
          reshape_probs bsz K V rows = Inr probs \<longrightarrow> EOS < V \<longrightarrow>
            (\<exists>sc. call self encoder_output (Some mxlen) =
                    Inr (tensor2 bsz K (\<lambda>_ _. [EOS]), tensor2 bsz K (\<lambda>_ _. mxlen), sc) \<and>
                  (\<forall>b<bsz. \<forall>k<K.
                     length_penalty self (tensor2 bsz K (\<lambda>_ _. mxlen)) ! b ! k \<noteq> 0 \<longrightarrow>
                     sc ! b ! k = probs ! b ! k ! EOS /
                       length_penalty self (tensor2 bsz K (\<lambda>_ _. mxlen)) ! b ! k)))"
proof (intro conjI impI)
  assume "beam self < 0"
  then show "call self encoder_output mxlen_kw = Inl NegativeDimension"
    by (simp add: call_def Let_def)
next
  assume k: "0 \<le> beam self" and m: "mxlen < 1"
    and st: "step self (paths s0) (extra s0) = ((V, rows), extra1)"
    and r: "reshape_probs bsz K V rows = Inr probs" and e: "EOS < V"
  let ?sc = "tensor2 bsz K (\<lambda>b k. probs ! b ! k ! EOS /
                      length_penalty self (tensor2 bsz K (\<lambda>_ _. mxlen)) ! b ! k)"
  have n: "nat (mxlen - 1) = 0" using m by simp
  have ls: "update_lengths (lengths s0) (map (map (\<lambda>_. True)) (lengths s0)) mxlen
      = tensor2 bsz K (\<lambda>_ _. mxlen)"
    unfolding assms(3) by (simp add: initial_beams_def update_lengths_all)
  have lp: "tensor2 bsz K (\<lambda>b k. log_probs s0 ! b ! k +
        tensor2 bsz K (\<lambda>b k. masked_fill (probs ! b ! k ! EOS) (lengths s0 ! b ! k \<noteq> 0) 0) ! b ! k)
      = tensor2 bsz K (\<lambda>b k. probs ! b ! k ! EOS)"
    unfolding assms(3) by (rule tensor2_cong) (simp add: initial_beams_def)
  have ps: "map (map tl) (tensor2 bsz K (\<lambda>b k. paths s0 ! b ! k @ [EOS])) = tensor2 bsz K (\<lambda>_ _. [EOS])"
    unfolding assms(3) map_map_tensor2 by (rule tensor2_cong) (simp add: initial_beams_def)
  have sc: "tensor2 bsz K (\<lambda>b k. tensor2 bsz K (\<lambda>b k. probs ! b ! k ! EOS) ! b ! k /
          length_penalty self (tensor2 bsz K (\<lambda>_ _. mxlen)) ! b ! k) = ?sc"
    by (rule tensor2_cong) simp
  have fin: "finalize self bsz K mxlen s0 =
      Inr (\<lparr>paths = tensor2 bsz K (\<lambda>b k. paths s0 ! b ! k @ [EOS]),
            log_probs = tensor2 bsz K (\<lambda>b k. probs ! b ! k ! EOS),
            lengths = tensor2 bsz K (\<lambda>_ _. mxlen), extra = extra1\<rparr>, ?sc)"
    using st r e by (simp add: finalize_def Let_def ls lp sc)
  have c: "call self encoder_output (Some mxlen) =
              Inr (tensor2 bsz K (\<lambda>_ _. [EOS]), tensor2 bsz K (\<lambda>_ _. mxlen), ?sc)"
    using k n fin ps assms by (simp add: call_def Let_def strip_go_def)
  have "\<forall>b<bsz. \<forall>k<K.
          length_penalty self (tensor2 bsz K (\<lambda>_ _. mxlen)) ! b ! k \<noteq> 0 \<longrightarrow>
          ?sc ! b ! k = probs ! b ! k ! EOS /
            length_penalty self (tensor2 bsz K (\<lambda>_ _. mxlen)) ! b ! k"
    by simp
  with c show "\<exists>sc. call self encoder_output (Some mxlen) =
                    Inr (tensor2 bsz K (\<lambda>_ _. [EOS]), tensor2 bsz K (\<lambda>_ _. mxlen), sc) \<and>
                  (\<forall>b<bsz. \<forall>k<K.
                     length_penalty self (tensor2 bsz K (\<lambda>_ _. mxlen)) ! b ! k \<noteq> 0 \<longrightarrow>
                     sc ! b ! k = probs ! b ! k ! EOS /
                       length_penalty self (tensor2 bsz K (\<lambda>_ _. mxlen)) ! b ! k)"
    by blast
qed

theorem configuration_not_validated_witness:
  "(\<exists>sc. call demo [()] (Some (- 2)) =
            Inr (tensor2 1 3 (\<lambda>_ _. [EOS]), tensor2 1 3 (\<lambda>_ _. - 2), sc) \<and>
          (\<forall>b<1. \<forall>k<3.
             length_penalty demo (tensor2 1 3 (\<lambda>_ _. - 2)) ! b ! k \<noteq> 0 \<longrightarrow>
             sc ! b ! k = [demo_rows 3] ! b ! k ! EOS /
               length_penalty demo (tensor2 1 3 (\<lambda>_ _. - 2)) ! b ! k)) \<and>
   length_penalty demo (tensor2 1 3 (\<lambda>_ _. - 2)) ! 0 ! 0 \<noteq> 0 \<and>
   call (demo\<lparr>beam := - 1\<rparr>) [()] (Some 3) = Inl NegativeDimension"
proof -
  have a: "1 = length [()]" "3 = nat (beam demo)" by code_simp+
  have k: "0 \<le> beam demo" by code_simp
  have m: "(- 2 :: int) < 1" "- 2147483648 \<le> (- 2 :: int)" by simp_all
  have s: "step demo (paths (initial_beams 1 3 (init demo [()]))) (extra (initial_beams 1 3 (init demo [()])))
      = ((4, demo_rows 3), ())" by code_simp
  have r: "reshape_probs 1 3 4 (demo_rows 3) = Inr [demo_rows 3]" by code_simp
  have e: "EOS < 4" by code_simp
  have p: "length_penalty demo (tensor2 1 3 (\<lambda>_ _. - 2)) ! 0 ! 0 \<noteq> 0" by code_simp
  have neg: "beam (demo\<lparr>beam := - 1\<rparr>) < 0" by simp
  have b: "1 = length [()]" "0 = nat (beam (demo\<lparr>beam := - 1\<rparr>))" by simp_all
  from configuration_not_validated[OF a refl, of "Some 3" "- 2" 4 "demo_rows 3" "()" "[demo_rows 3]"] k m s r e
  have 1: "\<exists>sc. call demo [()] (Some (- 2)) =
            Inr (tensor2 1 3 (\<lambda>_ _. [EOS]), tensor2 1 3 (\<lambda>_ _. - 2), sc) \<and>
          (\<forall>b<1. \<forall>k<3.
             length_penalty demo (tensor2 1 3 (\<lambda>_ _. - 2)) ! b ! k \<noteq> 0 \<longrightarrow>
             sc ! b ! k = [demo_rows 3] ! b ! k ! EOS /
               length_penalty demo (tensor2 1 3 (\<lambda>_ _. - 2)) ! b ! k)"
    by blast
  from configuration_not_validated[OF b refl, of "Some 3"] neg
  have 2: "call (demo\<lparr>beam := - 1\<rparr>) [()] (Some 3) = Inl NegativeDimension"
    by blast
  from 1 2 p show ?thesis by blast
qed

text \<open>
  Counterexample to C9 as stated: \<open>mxlen = 0\<close>, \<open>mxlen = -2\<close> and \<open>K = 0\<close> each
  return a result and no error.
\<close>

theorem configuration_error_counterexample:
  "call demo [()] (Some 0) = Inr ([[[EOS], [EOS], [EOS]]], [[0, 0, 0]], [[- 5, - 5, - 5]]) \<and>
   call demo [()] (Some (- 2)) = Inr ([[[EOS], [EOS], [EOS]]], [[- 2, - 2, - 2]], [[- 5, - 5, - 5]]) \<and>
   call no_beams [()] (Some 1) = Inr ([[]], [[]], [[]])"
  by code_simp

text \<open>
  C10 (first-step precondition). When the oracle's first output reshapes to
  \<open>[bsz, K, V]\<close> and there is at least one beam: for \<open>K \<le> V\<close> the first
  iteration succeeds, and its selection is, for every row, \<open>K\<close> distinct flat indices
  below \<open>V\<close>, that is, in the block of beam 0; for \<open>V < K\<close> the iteration fails in
  \<open>top_k\<close>.
\<close>

theorem first_step_top_k_defined:
  assumes "step self (paths s) (extra s) = ((V, rows), extra1)"
    and "reshape_probs bsz K V rows = Inr probs" and "0 < K"
  shows "(K \<le> V \<longrightarrow>
            (\<exists>fs sel. score_candidates (length_penalty self) bsz K V 0 (log_probs s) (lengths s) probs
                         = Inr (probs, fs, V) \<and>
                select fs V probs K V = Inr sel \<and>
                search_step self bsz K 0 s = Inr (reorder (update self) bsz K 0 s extra1 sel, best_scores sel) \<and>
                (\<forall>b<bsz. length (best_idx sel ! b) = K \<and> distinct (best_idx sel ! b) \<and>
                   (\<forall>j<K. best_idx sel ! b ! j < V \<and> best_beams sel ! b ! j = 0)))) \<and>
         (V < K \<longrightarrow> search_step self bsz K 0 s = Inl TopKOutOfRange)"
proof (intro conjI impI)
  let ?fs = "map (\<lambda>row. row ! 0) probs"
  have sc: "score_candidates (length_penalty self) bsz K V 0 (log_probs s) (lengths s) probs
      = Inr (probs, ?fs, V)"
    using assms(3) by (rule score_candidates_first)
  {
    assume "V < K"
    then have "select ?fs V probs K V = Inl TopKOutOfRange" by (simp add: select_Inl)
    then show "search_step self bsz K 0 s = Inl TopKOutOfRange"
      using assms(1,2) sc by (simp add: search_step_def)
  }
  {
    assume kv: "K \<le> V"
    then obtain sel where sel: "select ?fs V probs K V = Inr sel"
      by (simp add: select_Inr)
    have st: "search_step self bsz K 0 s = Inr (reorder (update self) bsz K 0 s extra1 sel, best_scores sel)"
      using assms(1,2) sc sel by (simp add: search_step_def)
    have "length (best_idx sel ! b) = K \<and> distinct (best_idx sel ! b) \<and>
            (\<forall>j<K. best_idx sel ! b ! j < V \<and> best_beams sel ! b ! j = 0)" if b: "b < bsz" for b
    proof -
      have l: "length (best_idx sel ! b) = K"
        using selected_in_range(5)[OF assms(2) sc sel b] assms(3) by blast
      have "length ?fs = bsz" using score_candidates_shape(1)[OF assms(2) sc] .
      then have "best_idx sel ! b = take K (ranking (?fs ! b))"
        using sel b by (simp add: select_Inr)
      then have d: "distinct (best_idx sel ! b)" by simp
      have "best_idx sel ! b ! j < V \<and> best_beams sel ! b ! j = 0" if j: "j < K" for j
        using selected_in_range(1,3)[OF assms(2) sc sel b j] by simp
      with l d show ?thesis by blast
    qed
    with sc sel st
    show "\<exists>fs sel. score_candidates (length_penalty self) bsz K V 0 (log_probs s) (lengths s) probs
                         = Inr (probs, fs, V) \<and>
                select fs V probs K V = Inr sel \<and>
                search_step self bsz K 0 s = Inr (reorder (update self) bsz K 0 s extra1 sel, best_scores sel) \<and>
                (\<forall>b<bsz. length (best_idx sel ! b) = K \<and> distinct (best_idx sel ! b) \<and>
                   (\<forall>j<K. best_idx sel ! b ! j < V \<and> best_beams sel ! b ! j = 0))"
      by blast
  }
qed

theorem first_step_top_k_defined_witness:
  "(\<exists>fs sel. score_candidates (length_penalty demo) 1 3 4 0 (log_probs (initial_beams 1 3 ()))
                 (lengths (initial_beams 1 3 ())) [demo_rows 3] = Inr ([demo_rows 3], fs, 4) \<and>
       select fs 4 [demo_rows 3] 3 4 = Inr sel \<and>
       search_step demo 1 3 0 (initial_beams 1 3 ())
         = Inr (reorder (update demo) 1 3 0 (initial_beams 1 3 ()) () sel, best_scores sel) \<and>
       (\<forall>b<1. length (best_idx sel ! b) = 3 \<and> distinct (best_idx sel ! b) \<and>
          (\<forall>j<3. best_idx sel ! b ! j < 4 \<and> best_beams sel ! b ! j = 0))) \<and>
   search_step demo_wide 1 5 0 (initial_beams 1 5 ()) = Inl TopKOutOfRange"
proof -
  have a: "step demo (paths (initial_beams 1 3 ())) (extra (initial_beams 1 3 ())) = ((4, demo_rows 3), ())"
    by code_simp
  have b: "reshape_probs 1 3 4 (demo_rows 3) = Inr [demo_rows 3]" by code_simp
  have a': "step demo_wide (paths (initial_beams 1 5 ())) (extra (initial_beams 1 5 ())) = ((4, demo_rows 5), ())"
    by code_simp
  have b': "reshape_probs 1 5 4 (demo_rows 5) = Inr [demo_rows 5]" by code_simp
  show ?thesis
    using first_step_top_k_defined[OF a b] first_step_top_k_defined[OF a' b'] by simp
qed

end
